theory Spec2Isabelle
  imports Main "HOL-Library.Multiset"
begin

text \<open>
  A model of the Go package \<^verbatim>\<open>config\<close>: the loaders of load.go, the constructors
  \<open>NewFilesContainer\<close> and \<open>NewReaderContainer\<close>, and the container of container.go with
  its methods and its change handler. Loggers and filesystems are capabilities handed
  in by the caller and are taken to be usable (not nil).
\<close>

section \<open>Errors\<close>

text \<open>
  The error values that travel through the package. \<open>ErrNoFilesFound\<close> is the package
  variable of load.go. \<open>PathError\<close> is \<^verbatim>\<open>*os.PathError\<close> (path and cause), the error a
  filesystem gives for a file it cannot open. \<open>ConfigFileNotFoundError\<close> is what the
  settings store answers when it has no config file set. \<open>OtherError\<close> stands for every
  other error value (a decoding error, an unsupported format, an error of a test double).
  \<open>errors_New\<close> and \<open>errors_WrapPrefix\<close> are the wrappers of go-errors: both keep the
  wrapped error reachable, the second puts a prefix before its message.
\<close>

datatype err =
    ErrNoFilesFound
  | PathError string string
  | ConfigFileNotFoundError
  | OtherError string
  | errors_New err
  | errors_WrapPrefix err string

fun Error :: "err \<Rightarrow> string" where
  "Error ErrNoFilesFound =
     ''no configuration files found please run init, or provide a config file using the --config flag''"
| "Error (PathError path cause) = ''open '' @ path @ '': '' @ cause"
| "Error ConfigFileNotFoundError = ''Config File Not Found''"
| "Error (OtherError msg) = msg"
| "Error (errors_New e) = Error e"
| "Error (errors_WrapPrefix e prefix) = prefix @ '': '' @ Error e"

text \<open>\<open>errors.Is\<close>: the target is the error itself or is reached by unwrapping.\<close>

fun Is :: "err \<Rightarrow> err \<Rightarrow> bool" where
  "Is (errors_New e) target = (errors_New e = target \<or> Is e target)"
| "Is (errors_WrapPrefix e prefix) target = (errors_WrapPrefix e prefix = target \<or> Is e target)"
| "Is e target = (e = target)"

text \<open>\<open>errors.As(err, &pathError)\<close> with \<open>pathError\<close> of type \<^verbatim>\<open>*os.PathError\<close>.\<close>

fun As_PathError :: "err \<Rightarrow> bool" where
  "As_PathError (PathError path cause) = True"
| "As_PathError (errors_New e) = As_PathError e"
| "As_PathError (errors_WrapPrefix e prefix) = As_PathError e"
| "As_PathError e = False"

text \<open>A run-time panic: a method of the settings store called through a nil pointer.\<close>

datatype panic = NilPointerDereference

section \<open>Logging\<close>

text \<open>
  A \<^verbatim>\<open>*slog.Logger\<close> is a handle; what a function logs is returned as the list of records
  it emitted, in order: the logger, the level and the message (the structured attributes,
  here only stack traces, are left out).
\<close>

datatype Logger = Logger nat

datatype level = LevelDebug | LevelInfo | LevelWarn | LevelError

type_synonym log_entry = "Logger \<times> level \<times> string"

section \<open>The settings store\<close>

text \<open>
  The settings store is the viper library, which the package imports and calls; only the
  operations the package calls are modelled, with the behaviour the library documents.
  A settings tree is a map from keys to values, a value being a scalar (or a sequence,
  which the store treats as one value) or a nested map. The store keeps the keys of what
  it loads in lower case: the trees here are as the store keeps them, with names in lower
  case and without dots. The package sets no overrides, flags, aliases, defaults or
  remote stores, so a lookup has two places to look: the environment and the tree.
\<close>

datatype scalar = VStr string | VInt int | VBool bool | VSeq "scalar list"

datatype setting = Leaf scalar | Node "string \<Rightarrow> setting option"

type_synonym settings = "string \<Rightarrow> setting option"

text \<open>
  The bytes of one source (the content of a file, of a reader, of an embedded asset) are
  represented by what the store's decoder makes of them: a settings tree, or the
  decoder's error.
\<close>

datatype payload = Undecodable err | Decodes settings

text \<open>
  The filesystem capability (\<^verbatim>\<open>afero.Fs\<close>): \<open>Stat\<close> gives the error of the existence
  check (\<open>None\<close> is a nil error), \<open>ReadFile\<close> the content or the error of reading.
\<close>

record Fs =
  Stat :: "string \<Rightarrow> err option"
  ReadFile :: "string \<Rightarrow> err + payload"

text \<open>The embedded-asset capability (\<^verbatim>\<open>EmbeddedFileReader\<close>): its \<open>ReadFile\<close>.\<close>

type_synonym EmbeddedFileReader = "string \<Rightarrow> err + payload"

text \<open>
  Modelled from the spec: the merge of a source into the store is done by the library
  (\<^verbatim>\<open>MergeInConfig\<close>, \<^verbatim>\<open>MergeConfig\<close>, its \<^verbatim>\<open>mergeMaps\<close>), whose code is not part of the
  repository. The spec describes it as a deep merge in which only leaf values at
  conflicting paths are replaced: a key of the source that the store does not have is
  added; two nested maps under the same key are merged key by key; a leaf value of the
  store is replaced by the value of the source; and a nested map of the store is never
  replaced by a scalar of the source: the map is kept and the scalar dropped.
  \<open>merge_value sv tv\<close> merges the source's value \<open>sv\<close> into the store's value \<open>tv\<close>.
\<close>

primrec merge_value :: "setting \<Rightarrow> setting \<Rightarrow> setting" where
  "merge_value (Leaf v) = (\<lambda>tv. case tv of
       Leaf _ \<Rightarrow> Leaf v
     | Node t \<Rightarrow> Node (\<lambda>k. t k))"
| "merge_value (Node s) = (\<lambda>tv. case tv of
       Leaf _ \<Rightarrow> Node (\<lambda>k. s k)
     | Node t \<Rightarrow> Node (\<lambda>k. case map_option merge_value (s k) of
                                   None \<Rightarrow> t k
                                 | Some m \<Rightarrow> (case t k of None \<Rightarrow> s k | Some tv' \<Rightarrow> Some (m tv'))))"

text \<open>
  Modelled from the spec: the library's merge of the settings of a source into the
  settings of the store, key by key, as described above.
\<close>

definition mergeMaps :: "settings \<Rightarrow> settings \<Rightarrow> settings" where
  "mergeMaps src tgt =
     (\<lambda>k. case src k of
             None \<Rightarrow> tgt k
           | Some sv \<Rightarrow> (case tgt k of None \<Rightarrow> Some sv | Some tv \<Rightarrow> Some (merge_value sv tv)))"

text \<open>
  The store: the config file set last, the config type, the settings tree, whether a
  change handler is installed, the file the store watches (if any), whether every lookup
  consults the environment, the replacer for the names of environment variables (one
  character for another), whether values are typed by their defaults, and, for a store
  that \<^verbatim>\<open>Sub\<close> returned, the keys that lead to it.
\<close>

record Viper =
  configFile :: string
  configType :: string
  config :: settings
  onConfigChange :: bool
  watching :: "string option"
  automaticEnvApplied :: bool
  envKeyReplacer :: "(char \<times> char) option"
  typeByDefValue :: bool
  parents :: "string list"

definition viper_New :: Viper where
  "viper_New = \<lparr>configFile = [], configType = [], config = Map.empty,
                onConfigChange = False, watching = None,
                automaticEnvApplied = False, envKeyReplacer = None,
                typeByDefValue = False, parents = []\<rparr>"

definition viper_AutomaticEnv :: "Viper \<Rightarrow> Viper" where
  "viper_AutomaticEnv v = v\<lparr>automaticEnvApplied := True\<rparr>"

definition viper_SetEnvKeyReplacer :: "char \<times> char \<Rightarrow> Viper \<Rightarrow> Viper" where
  "viper_SetEnvKeyReplacer r v = v\<lparr>envKeyReplacer := Some r\<rparr>"

definition viper_SetTypeByDefaultValue :: "bool \<Rightarrow> Viper \<Rightarrow> Viper" where
  "viper_SetTypeByDefaultValue enable v = v\<lparr>typeByDefValue := enable\<rparr>"

text \<open>\<^verbatim>\<open>SetConfigFile\<close> keeps the old file when it is given the empty string.\<close>

definition viper_SetConfigFile :: "string \<Rightarrow> Viper \<Rightarrow> Viper" where
  "viper_SetConfigFile f v = (if f \<noteq> [] then v\<lparr>configFile := f\<rparr> else v)"

definition viper_SetConfigType :: "string \<Rightarrow> Viper \<Rightarrow> Viper" where
  "viper_SetConfigType t v = (if t \<noteq> [] then v\<lparr>configType := t\<rparr> else v)"

text \<open>
  With no config file set the store searches its config paths; the package adds none, so
  the search finds nothing.
\<close>

definition viper_getConfigFile :: "Viper \<Rightarrow> err + string" where
  "viper_getConfigFile v =
     (if configFile v = [] then Inl ConfigFileNotFoundError else Inr (configFile v))"

text \<open>
  Reading replaces the settings tree, merging merges into it; when the file cannot be
  read or decoded the error is returned and the tree is left as it was. The filesystem
  is the one the container was initialised with.
\<close>

definition viper_ReadInConfig :: "Fs \<Rightarrow> Viper \<Rightarrow> Viper \<times> err option" where
  "viper_ReadInConfig fs v =
     (case viper_getConfigFile v of
        Inl e \<Rightarrow> (v, Some e)
      | Inr filename \<Rightarrow>
          (case ReadFile fs filename of
             Inl e \<Rightarrow> (v, Some e)
           | Inr (Undecodable e) \<Rightarrow> (v, Some e)
           | Inr (Decodes m) \<Rightarrow> (v\<lparr>config := m\<rparr>, None)))"

definition viper_MergeInConfig :: "Fs \<Rightarrow> Viper \<Rightarrow> Viper \<times> err option" where
  "viper_MergeInConfig fs v =
     (case viper_getConfigFile v of
        Inl e \<Rightarrow> (v, Some e)
      | Inr filename \<Rightarrow>
          (case ReadFile fs filename of
             Inl e \<Rightarrow> (v, Some e)
           | Inr (Undecodable e) \<Rightarrow> (v, Some e)
           | Inr (Decodes m) \<Rightarrow> (v\<lparr>config := mergeMaps m (config v)\<rparr>, None)))"

definition viper_ReadConfig :: "payload \<Rightarrow> Viper \<Rightarrow> Viper \<times> err option" where
  "viper_ReadConfig r v =
     (case r of
        Undecodable e \<Rightarrow> (v, Some e)
      | Decodes m \<Rightarrow> (v\<lparr>config := m\<rparr>, None))"

definition viper_MergeConfig :: "payload \<Rightarrow> Viper \<Rightarrow> Viper \<times> err option" where
  "viper_MergeConfig r v =
     (case r of
        Undecodable e \<Rightarrow> (v, Some e)
      | Decodes m \<Rightarrow> (v\<lparr>config := mergeMaps m (config v)\<rparr>, None))"

definition viper_OnConfigChange :: "Viper \<Rightarrow> Viper" where
  "viper_OnConfigChange v = v\<lparr>onConfigChange := True\<rparr>"

text \<open>\<^verbatim>\<open>WatchConfig\<close> watches the store's config file; without one it gives up.\<close>

definition viper_WatchConfig :: "Viper \<Rightarrow> Viper" where
  "viper_WatchConfig v =
     (case viper_getConfigFile v of
        Inl e \<Rightarrow> v
      | Inr filename \<Rightarrow> v\<lparr>watching := Some filename\<rparr>)"

text \<open>A key is a path of names separated by dots (\<^verbatim>\<open>strings.Split(key, ".")\<close>).\<close>

fun splitKey :: "string \<Rightarrow> string list" where
  "splitKey [] = [[]]"
| "splitKey (c # cs) =
     (if c = CHR ''.'' then [] # splitKey cs
      else (case splitKey cs of [] \<Rightarrow> [[c]] | w # ws \<Rightarrow> (c # w) # ws))"

fun searchMap :: "settings \<Rightarrow> string list \<Rightarrow> setting option" where
  "searchMap m [] = Some (Node m)"
| "searchMap m (k # ks) =
     (case m k of
        None \<Rightarrow> None
      | Some (Leaf v) \<Rightarrow> (if ks = [] then Some (Leaf v) else None)
      | Some (Node n) \<Rightarrow> searchMap n ks)"

text \<open>
  \<^verbatim>\<open>strings.ToLower\<close>, \<^verbatim>\<open>strings.ToUpper\<close> (on the letters of ASCII; other bytes are left as
  they are), \<^verbatim>\<open>strings.Join\<close>, and the replacer applied to a string.
\<close>

definition strings_ToLower :: "string \<Rightarrow> string" where
  "strings_ToLower s =
     map (\<lambda>c. case map_of (zip ''ABCDEFGHIJKLMNOPQRSTUVWXYZ'' ''abcdefghijklmnopqrstuvwxyz'') c of
                None \<Rightarrow> c
              | Some d \<Rightarrow> d) s"

definition strings_ToUpper :: "string \<Rightarrow> string" where
  "strings_ToUpper s =
     map (\<lambda>c. case map_of (zip ''abcdefghijklmnopqrstuvwxyz'' ''ABCDEFGHIJKLMNOPQRSTUVWXYZ'') c of
                None \<Rightarrow> c
              | Some d \<Rightarrow> d) s"

fun strings_Join :: "string list \<Rightarrow> string \<Rightarrow> string" where
  "strings_Join [] sep = []"
| "strings_Join [x] sep = x"
| "strings_Join (x # y # zs) sep = x @ sep @ strings_Join (y # zs) sep"

definition Replace :: "char \<times> char \<Rightarrow> string \<Rightarrow> string" where
  "Replace r s = map (\<lambda>c. if c = fst r then snd r else c) s"

text \<open>
  The environment of the process (\<^verbatim>\<open>os.LookupEnv\<close>). The store reads the variable whose
  name is the key with the replacer applied; a variable that is empty counts as not set.
  No prefix for the names is set, so \<open>mergeWithEnvPrefix\<close> only turns the key to upper case.
\<close>

type_synonym Environ = "string \<Rightarrow> string option"

definition getEnv :: "Environ \<Rightarrow> Viper \<Rightarrow> string \<Rightarrow> string option" where
  "getEnv env v key =
     (case env (case envKeyReplacer v of None \<Rightarrow> key | Some r \<Rightarrow> Replace r key) of
        None \<Rightarrow> None
      | Some val \<Rightarrow> (if val \<noteq> [] then Some val else None))"

definition mergeWithEnvPrefix :: "string \<Rightarrow> string" where
  "mergeWithEnvPrefix key = strings_ToUpper key"

text \<open>A nested key is shadowed when the environment has a variable for one of its parents.\<close>

definition isPathShadowedInAutoEnv :: "Environ \<Rightarrow> Viper \<Rightarrow> string list \<Rightarrow> bool" where
  "isPathShadowedInAutoEnv env v path =
     list_ex (\<lambda>i. getEnv env v (mergeWithEnvPrefix (strings_Join (take i path) ''.'')) \<noteq> None)
       [1 ..< length path]"

text \<open>
  The lookup of a key in lower case: first the environment, when \<^verbatim>\<open>AutomaticEnv\<close> is on
  (the value of a variable is a string), then the settings tree.
\<close>

definition viper_find :: "Environ \<Rightarrow> Viper \<Rightarrow> string \<Rightarrow> setting option" where
  "viper_find env v lcaseKey =
     (let path = splitKey lcaseKey;
          nested = (length path > 1);
          fromEnv = (if automaticEnvApplied v
                     then getEnv env v
                            (mergeWithEnvPrefix (strings_Join (parents v @ [lcaseKey]) ''.''))
                     else None)
      in case fromEnv of
           Some val \<Rightarrow> Some (Leaf (VStr val))
         | None \<Rightarrow>
             (if automaticEnvApplied v \<and> nested \<and> isPathShadowedInAutoEnv env v path
              then None
              else searchMap (config v) path))"

definition viper_Get :: "Environ \<Rightarrow> Viper \<Rightarrow> string \<Rightarrow> setting option" where
  "viper_Get env v key = viper_find env v (strings_ToLower key)"

text \<open>
  \<^verbatim>\<open>Sub\<close> gives a new store over the nested map that the lookup of the key finds, with
  the environment settings of the store it comes from, and nil when the lookup finds
  nothing or a value that is not a map.
\<close>

definition viper_Sub :: "Environ \<Rightarrow> Viper \<Rightarrow> string \<Rightarrow> Viper option" where
  "viper_Sub env v key =
     (case viper_Get env v key of
        None \<Rightarrow> None
      | Some (Leaf x) \<Rightarrow> None
      | Some (Node m) \<Rightarrow>
          Some (viper_New\<lparr>parents := parents v @ [strings_ToLower key],
                  automaticEnvApplied := automaticEnvApplied v,
                  envKeyReplacer := envKeyReplacer v,
                  config := m\<rparr>))"

text \<open>
  \<^verbatim>\<open>AllSettings\<close> builds a tree from the keys of the settings tree that hold a value, each
  with the value that the lookup of the key gives: a key whose lookup finds nothing is
  left out, and so is a nested map in which no key is left.
\<close>

primrec allSettings_value ::
  "setting \<Rightarrow> (string list \<Rightarrow> setting option) \<Rightarrow> string list \<Rightarrow> setting option" where
  "allSettings_value (Leaf x) = (\<lambda>get path. get path)"
| "allSettings_value (Node n) = (\<lambda>get path.
       if (\<forall>k. (case map_option allSettings_value (n k) of
                   None \<Rightarrow> None
                 | Some f \<Rightarrow> f get (path @ [k])) = None)
       then None
       else Some (Node (\<lambda>k. case map_option allSettings_value (n k) of
                                None \<Rightarrow> None
                              | Some f \<Rightarrow> f get (path @ [k]))))"

definition viper_AllSettings :: "Environ \<Rightarrow> Viper \<Rightarrow> settings" where
  "viper_AllSettings env v =
     (\<lambda>k. case config v k of
             None \<Rightarrow> None
           | Some val \<Rightarrow>
               allSettings_value val (\<lambda>path. viper_Get env v (strings_Join path ''.'')) [k])"

section \<open>Observers and the container\<close>

text \<open>
  An observer is a capability with one method \<open>Run\<close>: a value of a type of the caller
  (\<open>Custom\<close>), or a plain function wrapped by the package's \<open>Observer\<close> struct. The
  number names the handler.
\<close>

datatype Observable = Custom nat | Observer nat

record Container =
  ID :: string
  viper :: "Viper option"
  logger :: Logger
  observers :: "Observable list"

text \<open>
  \<open>initContainer\<close> builds the container around a new store and sets the store up:
  lookups in the environment, dots replaced by underscores in the names of the
  variables, typing by default values. It also hands the filesystem to the store, which
  reads from it later: in the model the reads take the filesystem directly, so
  \<open>initContainer\<close> does not. \<open>initViper\<close> is the store of the new container.
\<close>

definition initViper :: Viper where
  "initViper =
     viper_SetTypeByDefaultValue True
       (viper_SetEnvKeyReplacer (CHR ''.'', CHR ''_'')
          (viper_AutomaticEnv viper_New))"

definition initContainer :: "Logger \<Rightarrow> Container" where
  "initContainer l = \<lparr>ID = [], viper = Some initViper, logger = l, observers = []\<rparr>"

text \<open>One warning for an error, of one of two kinds; nothing for a nil error.\<close>

definition handleReadFileError :: "Container \<Rightarrow> err option \<Rightarrow> log_entry list" where
  "handleReadFileError c e =
     (case e of
        None \<Rightarrow> []
      | Some er \<Rightarrow>
          (if As_PathError er
           then [(logger c, LevelWarn, ''could not load config file. Using default values'')]
           else [(logger c, LevelWarn, ''Could not read the config file ('' @ Error er @ '')'')]))"

text \<open>
  \<open>watchConfig\<close> installs the change handler (the notification round below) and starts
  the watch.
\<close>

definition watchConfig :: "Viper \<Rightarrow> Viper" where
  "watchConfig v = viper_WatchConfig (viper_OnConfigChange v)"

subsection \<open>NewFilesContainer\<close>

text \<open>
  The constructors keep the identity, the store (at first \<open>initViper\<close>, the store of the
  initial container) and the log in hand while they load, and the container is the
  initial one with the identity and the store they end with. The loop over
  \<^verbatim>\<open>configFiles[1:]\<close>:
\<close>

fun mergeFiles ::
  "Fs \<Rightarrow> Container \<Rightarrow> string list \<Rightarrow> string \<times> Viper \<times> log_entry list
     \<Rightarrow> string \<times> Viper \<times> log_entry list" where
  "mergeFiles fs c [] st = st"
| "mergeFiles fs c (f # rest) (ident, v, lg) =
     (let (v', e) = viper_MergeInConfig fs (viper_SetConfigFile f v)
      in mergeFiles fs c rest (ident @ '';'' @ f, v', lg @ handleReadFileError c e))"

definition NewFilesContainer ::
  "Logger \<Rightarrow> Fs \<Rightarrow> string list \<Rightarrow> Container \<times> log_entry list" where
  "NewFilesContainer l fs configFiles =
     (let c = initContainer l;
          st1 = (case configFiles of
                   [] \<Rightarrow> (ID c, initViper, [])
                 | f # _ \<Rightarrow>
                     (let (v', e) = viper_ReadInConfig fs (viper_SetConfigFile f initViper)
                      in (f, v', handleReadFileError c e)));
          (ident, v, lg) =
            (if length configFiles > 1
             then (let (ident2, v2, lg2) = mergeFiles fs c (tl configFiles) st1
                   in (ident2, watchConfig v2, lg2 @ [(logger c, LevelInfo, ''Loaded Config'')]))
             else st1)
      in (c\<lparr>ID := ident, viper := Some v\<rparr>, lg))"

subsection \<open>NewReaderContainer\<close>

text \<open>Decimal digits of a number (\<^verbatim>\<open>%d\<close>).\<close>

fun itoa :: "nat \<Rightarrow> string" where
  "itoa n = (if n < 10 then [char_of (48 + n)] else itoa (n div 10) @ [char_of (48 + n mod 10)])"

text \<open>The loop over \<^verbatim>\<open>configReaders[1:]\<close>; \<open>i\<close> is the index in that slice.\<close>

fun mergeReaders ::
  "Container \<Rightarrow> nat \<Rightarrow> payload list \<Rightarrow> string \<times> Viper \<times> log_entry list
     \<Rightarrow> string \<times> Viper \<times> log_entry list" where
  "mergeReaders c i [] st = st"
| "mergeReaders c i (r # rest) (ident, v, lg) =
     (let (v', e) = viper_MergeConfig r v
      in mergeReaders c (i + 1) rest
           (ident @ '';'' @ itoa (i + 1), v', lg @ handleReadFileError c e))"

definition NewReaderContainer ::
  "Logger \<Rightarrow> string \<Rightarrow> payload list \<Rightarrow> Container \<times> log_entry list" where
  "NewReaderContainer l format configReaders =
     (let c = initContainer l;
          v0 = viper_SetConfigType format initViper;
          st1 = (case configReaders of
                   [] \<Rightarrow> (ID c, v0, [])
                 | r # _ \<Rightarrow>
                     (let (v', e) = viper_ReadConfig r v0
                      in (''0'', v', handleReadFileError c e)));
          (ident, v, lg) =
            (if length configReaders > 1
             then (let (ident2, v2, lg2) = mergeReaders c 0 (tl configReaders) st1
                   in (ident2, v2, lg2 @ [(logger c, LevelInfo, ''Loaded Config'')]))
             else st1)
      in (c\<lparr>ID := ident, viper := Some v\<rparr>, lg))"

section \<open>Load and LoadEmbed\<close>

text \<open>
  Both return the pair of Go (\<open>Inl\<close>: a nil container and the error; \<open>Inr\<close>: the container
  and a nil error) together with what they logged.
\<close>

definition Load ::
  "string list \<Rightarrow> Fs \<Rightarrow> Logger \<Rightarrow> bool \<Rightarrow> (err + Container) \<times> log_entry list" where
  "Load paths fs l allowEmptyConfig =
     (let loadable = filter (\<lambda>path. Stat fs path = None) paths
      in if \<not> allowEmptyConfig \<and> length loadable = 0
         then (Inl (errors_New ErrNoFilesFound), [(l, LevelDebug, ''Loading configuration'')])
         else (let (c, lg) = NewFilesContainer l fs loadable
               in (Inr c, (l, LevelDebug, ''Loading configuration'') # lg)))"

text \<open>
  The loop of \<open>LoadEmbed\<close>: the payloads read so far and the names \<open>ReadFile\<close> has been
  called with so far; it ends with the first error, wrapped, or with all payloads.
  \<open>LoadEmbed\<close> returns the names it read as well, after the log.
\<close>

fun readEmbedded ::
  "EmbeddedFileReader \<Rightarrow> string list \<Rightarrow> payload list \<times> string list
     \<Rightarrow> (err + payload list) \<times> string list" where
  "readEmbedded fs [] (configs, reads) = (Inr configs, reads)"
| "readEmbedded fs (path # rest) (configs, reads) =
     (case fs path of
        Inl e \<Rightarrow> (Inl (errors_WrapPrefix e (''failed to read embedded config file '' @ path)),
                  reads @ [path])
      | Inr cfg \<Rightarrow> readEmbedded fs rest (configs @ [cfg], reads @ [path]))"

definition LoadEmbed ::
  "string list \<Rightarrow> EmbeddedFileReader \<Rightarrow> Logger
     \<Rightarrow> (err + Container) \<times> log_entry list \<times> string list" where
  "LoadEmbed paths fs l =
     (case readEmbedded fs paths ([], []) of
        (Inl e, reads) \<Rightarrow> (Inl e, [(l, LevelDebug, ''Loading embedded configuration'')], reads)
      | (Inr configs, reads) \<Rightarrow>
          (let (c, lg) = NewReaderContainer l ''yaml'' configs
           in (Inr c, (l, LevelDebug, ''Loading embedded configuration'') # lg, reads)))"

section \<open>The methods of the container\<close>

text \<open>
  The methods that read the store take the environment of the process as an argument.
  Calling a method of the store through a nil pointer panics; this happens when the
  store of the container is nil. \<open>Get\<close> hands the key to the store.
\<close>

definition Get :: "Environ \<Rightarrow> Container \<Rightarrow> string \<Rightarrow> panic + setting option" where
  "Get env c key =
     (case viper c of
        None \<Rightarrow> Inl NilPointerDereference
      | Some v \<Rightarrow> Inr (viper_Get env v key))"

text \<open>\<open>Sub\<close> builds a new container around what the store's \<open>Sub\<close> returns, unchecked.\<close>

definition Sub :: "Environ \<Rightarrow> Container \<Rightarrow> string \<Rightarrow> panic + Container" where
  "Sub env c key =
     (case viper c of
        None \<Rightarrow> Inl NilPointerDereference
      | Some v \<Rightarrow> Inr \<lparr>ID = ID c @ ''#'' @ key, viper = viper_Sub env v key,
                       logger = logger c, observers = []\<rparr>)"

definition AddObserver :: "Container \<Rightarrow> Observable \<Rightarrow> Container" where
  "AddObserver c ob = c\<lparr>observers := observers c @ [ob]\<rparr>"

definition AddObserverFunc :: "Container \<Rightarrow> nat \<Rightarrow> Container" where
  "AddObserverFunc c f = c\<lparr>observers := observers c @ [Observer f]\<rparr>"

text \<open>
  \<^verbatim>\<open>json.Marshal\<close> returns the bytes and a nil error, or nil bytes and the error; which
  settings it can encode, and to what, is the standard library's matter: the encoder is
  a parameter. \<open>ToJSON\<close> has no error result: it returns \<^verbatim>\<open>string(bs)\<close> and what it logged.
\<close>

definition json_Marshal :: "(settings \<Rightarrow> err + string) \<Rightarrow> settings \<Rightarrow> string \<times> err option" where
  "json_Marshal enc s = (case enc s of Inl e \<Rightarrow> ([], Some e) | Inr bs \<Rightarrow> (bs, None))"

definition ToJSON ::
  "Environ \<Rightarrow> (settings \<Rightarrow> err + string) \<Rightarrow> Container \<Rightarrow> panic + string \<times> log_entry list" where
  "ToJSON env enc c =
     (case viper c of
        None \<Rightarrow> Inl NilPointerDereference
      | Some v \<Rightarrow>
          (let (bs, e) = json_Marshal enc (viper_AllSettings env v)
           in Inr (bs, (case e of
                          None \<Rightarrow> []
                        | Some er \<Rightarrow> [(logger c, LevelError, ''unable to marshal config to YAML'')]))))"

section \<open>The notification round\<close>

text \<open>
  The change handler that \<open>watchConfig\<close> installs, after it has logged the event: for each
  observer of the snapshot the handler adds one to a wait group and starts a goroutine
  that runs the observer with the container and the round's channel and then calls
  \<open>Done\<close>; the handler then waits until the counter is zero and returns. The state of a
  round: the observers the loop has still to launch, the counter of the wait group, the
  goroutines that have not yet called \<open>Run\<close>, those inside \<open>Run\<close> and those back from it
  but not yet done, the calls of \<open>Run\<close> made so far with their arguments (the channel is
  a number), how many calls have returned, and whether the handler has returned.
\<close>

record round =
  pending :: "Observable list"
  wg :: int
  spawned :: "Observable multiset"
  running :: "Observable multiset"
  finishing :: "Observable multiset"
  calls :: "(Observable \<times> Container \<times> nat) list"
  finished :: nat
  returned :: bool

text \<open>The range loop reads the observer list once, when it starts.\<close>

definition startRound :: "Container \<Rightarrow> round" where
  "startRound c = \<lparr>pending = observers c, wg = 0, spawned = {#}, running = {#},
                    finishing = {#}, calls = [], finished = 0, returned = False\<rparr>"

text \<open>
  The steps of the handler and of its goroutines, interleaved in any order: \<open>go\<close> is one
  turn of the loop (\<open>wg.Add(1)\<close> and the \<open>go\<close> statement), \<open>Run_call\<close> and \<open>Run_return\<close> are
  the call of \<open>o.Run(c, errs)\<close> and its return, \<open>wg_Done\<close> is \<open>wg.Done()\<close>, and \<open>wg_Wait\<close> is
  the return of \<open>wg.Wait()\<close>, possible only after the loop and with the counter at zero.
\<close>

inductive step :: "Container \<Rightarrow> nat \<Rightarrow> round \<Rightarrow> round \<Rightarrow> bool"
  for c :: Container and errs :: nat where
  go: "pending s = ob # rest \<Longrightarrow> \<not> returned s \<Longrightarrow>
     step c errs s (s\<lparr>pending := rest, wg := wg s + 1, spawned := add_mset ob (spawned s)\<rparr>)"
| Run_call: "ob \<in># spawned s \<Longrightarrow>
     step c errs s (s\<lparr>spawned := spawned s - {#ob#}, running := add_mset ob (running s),
                       calls := calls s @ [(ob, c, errs)]\<rparr>)"
| Run_return: "ob \<in># running s \<Longrightarrow>
     step c errs s (s\<lparr>running := running s - {#ob#}, finishing := add_mset ob (finishing s),
                       finished := finished s + 1\<rparr>)"
| wg_Done: "ob \<in># finishing s \<Longrightarrow>
     step c errs s (s\<lparr>finishing := finishing s - {#ob#}, wg := wg s - 1\<rparr>)"
| wg_Wait: "pending s = [] \<Longrightarrow> wg s = 0 \<Longrightarrow> \<not> returned s \<Longrightarrow>
     step c errs s (s\<lparr>returned := True\<rparr>)"

text \<open>What holds in every state of a round.\<close>

definition round_inv :: "Container \<Rightarrow> nat \<Rightarrow> round \<Rightarrow> bool" where
  "round_inv c errs s =
     (wg s = int (size (spawned s) + size (running s) + size (finishing s))
      \<and> mset (map fst (calls s)) + spawned s + mset (pending s) = mset (observers c)
      \<and> length (calls s) = finished s + size (running s)
      \<and> set (map snd (calls s)) \<subseteq> {(c, errs)}
      \<and> (returned s \<longrightarrow> pending s = [] \<and> spawned s = {#} \<and> running s = {#} \<and> finishing s = {#}))"

text \<open>The state after a round in which every observer ran.\<close>

definition finalRound :: "Container \<Rightarrow> nat \<Rightarrow> round" where
  "finalRound c errs = \<lparr>pending = [], wg = 0, spawned = {#}, running = {#}, finishing = {#},
     calls = map (\<lambda>ob. (ob, c, errs)) (observers c), finished = length (observers c),
     returned = True\<rparr>"

section \<open>Describing a load\<close>

text \<open>
  What the store gets from a source: its settings, or the error of reading or decoding
  it. For a file the store reads the config file it holds, and with none set (the empty
  name) the read fails.
\<close>

definition fileOutcome :: "Fs \<Rightarrow> string \<Rightarrow> err + settings" where
  "fileOutcome fs f =
     (if f = [] then Inl ConfigFileNotFoundError
      else (case ReadFile fs f of
              Inl e \<Rightarrow> Inl e
            | Inr (Undecodable e) \<Rightarrow> Inl e
            | Inr (Decodes m) \<Rightarrow> Inr m))"

definition payloadOutcome :: "payload \<Rightarrow> err + settings" where
  "payloadOutcome r = (case r of Undecodable e \<Rightarrow> Inl e | Decodes m \<Rightarrow> Inr m)"

text \<open>
  The config file the store holds at each step of a load, given the one it held before:
  an empty name leaves it as it was.
\<close>

fun effectiveFiles :: "string \<Rightarrow> string list \<Rightarrow> string list" where
  "effectiveFiles cur [] = []"
| "effectiveFiles cur (f # rest) =
     (if f \<noteq> [] then f # effectiveFiles f rest else cur # effectiveFiles cur rest)"

text \<open>A source that failed leaves the settings as they were; the others are merged in.\<close>

definition absorb :: "settings \<Rightarrow> err + settings \<Rightarrow> settings" where
  "absorb m out = (case out of Inl e \<Rightarrow> m | Inr s \<Rightarrow> mergeMaps s m)"

definition warningOf :: "Container \<Rightarrow> err + settings \<Rightarrow> log_entry list" where
  "warningOf c out = (case out of Inl e \<Rightarrow> handleReadFileError c (Some e) | Inr s \<Rightarrow> [])"

text \<open>
  A source does not define a key when its own tree holds nothing at the key's path. A
  source that failed defines nothing.
\<close>

definition undefinedBy :: "err + settings \<Rightarrow> string list \<Rightarrow> bool" where
  "undefinedBy out p = (case out of Inl e \<Rightarrow> True | Inr t \<Rightarrow> searchMap t p = None)"

text \<open>What the settings tree of a container holds at a path.\<close>

definition settingAt :: "Container \<Rightarrow> string list \<Rightarrow> setting option" where
  "settingAt c p = (case viper c of None \<Rightarrow> None | Some v \<Rightarrow> searchMap (config v) p)"

definition loadedStore :: "Fs \<Rightarrow> string list \<Rightarrow> Viper" where
  "loadedStore fs files =
     initViper\<lparr>configFile := last ([] # effectiveFiles [] files),
       config := foldl absorb Map.empty (map (fileOutcome fs) (effectiveFiles [] files))\<rparr>"

definition isWarn :: "log_entry \<Rightarrow> bool" where
  "isWarn r = (fst (snd r) = LevelWarn)"

section \<open>The fixtures of the tests\<close>

text \<open>
  \<^verbatim>\<open>afero.NewMemMapFs()\<close> holding the given files, and the two documents of
  \<^verbatim>\<open>config_test.go\<close> as the decoder reads them (the float is left out).
\<close>

definition memMapFs :: "(string \<times> payload) list \<Rightarrow> Fs" where
  "memMapFs files =
     \<lparr>Stat = (\<lambda>path. case map_of files path of
                       None \<Rightarrow> Some (PathError path ''file does not exist'')
                     | Some content \<Rightarrow> None),
      ReadFile = (\<lambda>path. case map_of files path of
                           None \<Rightarrow> Inl (PathError path ''file does not exist'')
                         | Some content \<Rightarrow> Inr content)\<rparr>"

definition firstMockFilesYaml :: settings where
  "firstMockFilesYaml =
     [''yaml'' \<mapsto> Node [''key'' \<mapsto> Leaf (VStr ''value''),
                        ''bool'' \<mapsto> Leaf (VBool True),
                        ''int'' \<mapsto> Leaf (VInt 1),
                        ''time'' \<mapsto> Leaf (VStr ''2021-09-11 12:34:56''),
                        ''duration'' \<mapsto> Leaf (VStr ''5s'')]]"

definition secondMockFilesYaml :: settings where
  "secondMockFilesYaml =
     [''yaml'' \<mapsto> Node [''key'' \<mapsto> Leaf (VStr ''value2''),
                        ''more'' \<mapsto> Node [''key2'' \<mapsto> Leaf (VStr ''secondfile'')]]]"

definition twoFiles :: Fs where
  "twoFiles = memMapFs [(''first.yml'', Decodes firstMockFilesYaml),
                        (''second.yml'', Decodes secondMockFilesYaml)]"

text \<open>An embedded filesystem without files (\<^verbatim>\<open>var emptyFS embed.FS\<close>).\<close>

definition emptyFS :: EmbeddedFileReader where
  "emptyFS = (\<lambda>name. Inl (PathError name ''file does not exist''))"

text \<open>An environment without variables.\<close>

definition noEnv :: Environ where
  "noEnv = (\<lambda>name. None)"

text \<open>The container of \<^verbatim>\<open>TestContainer_Sub\<close>.\<close>

definition secondReader :: Container where
  "secondReader = fst (NewReaderContainer (Logger 0) ''yaml'' [Decodes secondMockFilesYaml])"

text \<open>
  What \<open>Sub\<close> returns for the container of \<^verbatim>\<open>TestContainer_Sub\<close> and a key that is not
  there.
\<close>

definition missingSub :: Container where
  "missingSub = \<lparr>ID = ''0#missing'', viper = None, logger = Logger 0, observers = []\<rparr>"

text \<open>
  Two documents, the first with a nested map under a key, the second with a scalar under
  the same key.
\<close>

definition nestedFirst :: settings where
  "nestedFirst = [''a'' \<mapsto> Node [''b'' \<mapsto> Leaf (VInt 1)]]"

definition scalarSecond :: settings where
  "scalarSecond = [''a'' \<mapsto> Leaf (VStr ''x'')]"

text \<open>A container with a watch and two observers, registered as the test does.\<close>

definition watched :: Container where
  "watched = AddObserverFunc (AddObserver
       (fst (NewFilesContainer (Logger 0) twoFiles [''first.yml'', ''second.yml''])) (Custom 1)) 2"

section \<open>The loaders, step by step\<close>

lemma mergeMaps_empty [simp]: "mergeMaps s Map.empty = s"
  by (rule ext) (simp add: mergeMaps_def split: option.splits)

lemma viper_MergeInConfig_eq:
  "viper_MergeInConfig fs v =
     (v\<lparr>config := absorb (config v) (fileOutcome fs (configFile v))\<rparr>,
      (case fileOutcome fs (configFile v) of Inl e \<Rightarrow> Some e | Inr s \<Rightarrow> None))"
  by (simp add: viper_MergeInConfig_def viper_getConfigFile_def fileOutcome_def absorb_def
      split: sum.splits payload.splits)

lemma viper_ReadInConfig_init:
  "viper_ReadInConfig fs (viper_SetConfigFile f initViper) =
     ((viper_SetConfigFile f initViper)\<lparr>config := absorb Map.empty (fileOutcome fs f)\<rparr>,
      (case fileOutcome fs f of Inl e \<Rightarrow> Some e | Inr s \<Rightarrow> None))"
  by (simp add: viper_ReadInConfig_def viper_getConfigFile_def fileOutcome_def absorb_def
      viper_SetConfigFile_def initViper_def viper_AutomaticEnv_def viper_SetEnvKeyReplacer_def
      viper_SetTypeByDefaultValue_def viper_New_def split: sum.splits payload.splits)

lemma handle_warningOf:
  "handleReadFileError c (case out of Inl e \<Rightarrow> Some e | Inr s \<Rightarrow> None) = warningOf c out"
  by (simp add: warningOf_def handleReadFileError_def split: sum.splits)

lemma mergeFiles_eq:
  "mergeFiles fs c files (ident, v, lg) =
     (ident @ concat (map (\<lambda>g. CHR '';'' # g) files),
      v\<lparr>configFile := last (configFile v # effectiveFiles (configFile v) files),
        config := foldl absorb (config v)
                    (map (fileOutcome fs) (effectiveFiles (configFile v) files))\<rparr>,
      lg @ concat (map (warningOf c) (map (fileOutcome fs) (effectiveFiles (configFile v) files))))"
proof (induction files arbitrary: ident v lg)
  case Nil
  show ?case by simp
next
  case (Cons f rest)
  show ?case
    by (simp add: viper_MergeInConfig_eq Cons.IH handle_warningOf viper_SetConfigFile_def)
qed

lemma SetConfigFile_init: "viper_SetConfigFile f initViper = initViper\<lparr>configFile := f\<rparr>"
  by (simp add: viper_SetConfigFile_def initViper_def viper_AutomaticEnv_def viper_SetEnvKeyReplacer_def
      viper_SetTypeByDefaultValue_def viper_New_def)

lemma firstFile_eq:
  "(case viper_ReadInConfig fs (viper_SetConfigFile f initViper) of
      (v', e) \<Rightarrow> (f, v', handleReadFileError c e)) =
   (f, loadedStore fs [f], warningOf c (fileOutcome fs f))"
  unfolding viper_ReadInConfig_init
  unfolding SetConfigFile_init
  by (simp add: handle_warningOf loadedStore_def initViper_def viper_AutomaticEnv_def viper_SetEnvKeyReplacer_def
      viper_SetTypeByDefaultValue_def viper_New_def)

lemma loadedStore_fields:
  "configFile (loadedStore fs files) = last ([] # effectiveFiles [] files)"
  "config (loadedStore fs files) =
     foldl absorb Map.empty (map (fileOutcome fs) (effectiveFiles [] files))"
  "onConfigChange (loadedStore fs files) = False"
  "watching (loadedStore fs files) = None"
  "configType (loadedStore fs files) = []"
  by (simp_all add: loadedStore_def initViper_def viper_AutomaticEnv_def viper_SetEnvKeyReplacer_def
      viper_SetTypeByDefaultValue_def viper_New_def)

lemma mergeFiles_loadedStore:
  "mergeFiles fs c (g # rest) (f, loadedStore fs [f], warningOf c (fileOutcome fs f)) =
     (f @ concat (map (\<lambda>g. CHR '';'' # g) (g # rest)),
      loadedStore fs (f # g # rest),
      concat (map (warningOf c) (map (fileOutcome fs) (effectiveFiles [] (f # g # rest)))))"
proof -
  have cf: "configFile (loadedStore fs [f]) = f"
    by (simp add: loadedStore_def initViper_def viper_AutomaticEnv_def viper_SetEnvKeyReplacer_def
      viper_SetTypeByDefaultValue_def viper_New_def)
  have eff: "effectiveFiles [] (f # g # rest) = f # effectiveFiles f (g # rest)"
    by simp
  have st: "(loadedStore fs [f])\<lparr>configFile := last (f # effectiveFiles f (g # rest)),
        config := foldl absorb (config (loadedStore fs [f]))
                    (map (fileOutcome fs) (effectiveFiles f (g # rest)))\<rparr>
      = loadedStore fs (f # g # rest)"
    unfolding loadedStore_def eff by (simp add: initViper_def viper_AutomaticEnv_def viper_SetEnvKeyReplacer_def
      viper_SetTypeByDefaultValue_def viper_New_def)
  show ?thesis
    unfolding mergeFiles_eq cf st eff by simp
qed

lemma NewFilesContainer_eq:
  "NewFilesContainer l fs files =
     ((initContainer l)\<lparr>ID := (case files of [] \<Rightarrow> []
                                | f # rest \<Rightarrow> f @ concat (map (\<lambda>g. CHR '';'' # g) rest)),
        viper := Some (if length files > 1 then watchConfig (loadedStore fs files)
                       else loadedStore fs files)\<rparr>,
      concat (map (warningOf (initContainer l)) (map (fileOutcome fs) (effectiveFiles [] files)))
        @ (if length files > 1 then [(l, LevelInfo, ''Loaded Config'')] else []))"
proof (cases files)
  case Nil
  then show ?thesis
    by (simp add: NewFilesContainer_def loadedStore_def initContainer_def initViper_def viper_AutomaticEnv_def viper_SetEnvKeyReplacer_def
      viper_SetTypeByDefaultValue_def viper_New_def)
next
  case (Cons f rest)
  show ?thesis
  proof (cases rest)
    case Nil
    with Cons have files: "files = [f]" by simp
    show ?thesis
      unfolding files NewFilesContainer_def Let_def list.case
      unfolding firstFile_eq
      by (simp add: initContainer_def)
  next
    case (Cons g rest')
    with \<open>files = f # rest\<close> have files: "files = f # g # rest'" by simp
    show ?thesis
      unfolding files NewFilesContainer_def Let_def list.case list.sel
      unfolding firstFile_eq
      unfolding mergeFiles_loadedStore
      by (simp add: initContainer_def del: effectiveFiles.simps)
  qed
qed

lemma Load_eq:
  "Load paths fs l a =
     (if \<not> a \<and> filter (\<lambda>path. Stat fs path = None) paths = []
      then (Inl (errors_New ErrNoFilesFound), [(l, LevelDebug, ''Loading configuration'')])
      else (Inr (fst (NewFilesContainer l fs (filter (\<lambda>path. Stat fs path = None) paths))),
            (l, LevelDebug, ''Loading configuration'')
              # snd (NewFilesContainer l fs (filter (\<lambda>path. Stat fs path = None) paths))))"
  by (simp add: Load_def Let_def split: prod.splits)

section \<open>Properties of the loaders\<close>

text \<open>
  C1. \<open>Load\<close> returns the error \<open>ErrNoFilesFound\<close> (wrapped by \<open>errors.New\<close>, so that
  \<open>errors.Is\<close> finds it) and no container exactly when \<open>allowEmptyConfig\<close> is false and
  \<open>Stat\<close> fails for every path of the list; and it returns a container with a store, and
  no error, exactly in the other cases: when \<open>allowEmptyConfig\<close> is true (also for the
  empty list) or some path passes the check.
\<close>

theorem Load_ErrNoFilesFound_iff:
  "(fst (Load paths fs l allowEmptyConfig) = Inl (errors_New ErrNoFilesFound))
     = (\<not> allowEmptyConfig \<and> (\<forall>path\<in>set paths. Stat fs path \<noteq> None))
   \<and> ((\<exists>c. fst (Load paths fs l allowEmptyConfig) = Inr c \<and> viper c \<noteq> None)
     = (allowEmptyConfig \<or> (\<exists>path\<in>set paths. Stat fs path = None)))
   \<and> Is (errors_New ErrNoFilesFound) ErrNoFilesFound"
  unfolding Load_eq
  by (auto simp: filter_empty_conv NewFilesContainer_eq)

theorem Load_ErrNoFilesFound_iff_witness:
  "map (Stat (memMapFs [])) [''nonexistent1.yaml'', ''nonexistent2.yaml'']
     = [Some (PathError ''nonexistent1.yaml'' ''file does not exist''),
        Some (PathError ''nonexistent2.yaml'' ''file does not exist'')]
   \<and> fst (Load [''nonexistent1.yaml'', ''nonexistent2.yaml''] (memMapFs []) (Logger 0) False)
       = Inl (errors_New ErrNoFilesFound)
   \<and> (\<exists>c. fst (Load [] (memMapFs []) (Logger 0) True) = Inr c \<and> viper c \<noteq> None)"
  using Load_ErrNoFilesFound_iff [of "[''nonexistent1.yaml'', ''nonexistent2.yaml'']" "memMapFs []" "Logger 0" False]
    Load_ErrNoFilesFound_iff [of "[]" "memMapFs []" "Logger 0" True]
  by (simp add: memMapFs_def)

lemma warningOf_isWarn: "filter isWarn (warningOf c out) = warningOf c out"
  by (simp add: warningOf_def handleReadFileError_def isWarn_def split: sum.splits)

lemma warningOf_length: "length (warningOf c out) = (if isl out then 1 else 0)"
  by (simp add: warningOf_def handleReadFileError_def split: sum.splits)

lemma warnings_isWarn: "filter isWarn (concat (map (warningOf c) outs)) = concat (map (warningOf c) outs)"
  by (induction outs) (simp_all add: warningOf_isWarn)

lemma warnings_length: "length (concat (map (warningOf c) outs)) = length (filter isl outs)"
  by (induction outs) (simp_all add: warningOf_length)

lemma watchConfig_fields:
  "config (watchConfig v) = config v"
  "configFile (watchConfig v) = configFile v"
  "onConfigChange (watchConfig v) = True"
  "watching (watchConfig v) = (if configFile v = [] then watching v else Some (configFile v))"
  by (simp_all add: watchConfig_def viper_WatchConfig_def viper_OnConfigChange_def
      viper_getConfigFile_def)

lemma effectiveFiles_nonempty: "[] \<notin> set files \<Longrightarrow> effectiveFiles cur files = files"
  by (induction files arbitrary: cur) auto

text \<open>
  C6. When \<open>Load\<close> goes on to load (some path passes the existence check, or the empty
  configuration is allowed), it returns a container and no error whatever the reads and
  the decoder give for the files. The settings are those of the sources that could be
  read, merged in order (\<open>effectiveFiles\<close> is the list of files itself when no name is
  empty): a source that failed contributes nothing (\<open>absorb\<close> leaves the settings as
  they were, so after a failed first file they are still the empty defaults). The
  warnings of the log are exactly those of \<open>handleReadFileError\<close> for the
  failed sources, one for each, in order.
\<close>

theorem Load_read_failures_logged_not_returned:
  assumes "allowEmptyConfig \<or> (\<exists>path\<in>set paths. Stat fs path = None)"
  shows "\<exists>c v lg.
      Load paths fs l allowEmptyConfig = (Inr c, lg) \<and> viper c = Some v
    \<and> config v = foldl absorb Map.empty
         (map (fileOutcome fs) (effectiveFiles [] (filter (\<lambda>path. Stat fs path = None) paths)))
    \<and> filter isWarn lg = concat (map (warningOf (initContainer l))
         (map (fileOutcome fs) (effectiveFiles [] (filter (\<lambda>path. Stat fs path = None) paths))))
    \<and> length (filter isWarn lg) = length (filter isl
         (map (fileOutcome fs) (effectiveFiles [] (filter (\<lambda>path. Stat fs path = None) paths))))"
proof -
  let ?loadable = "filter (\<lambda>path. Stat fs path = None) paths"
  let ?outs = "map (fileOutcome fs) (effectiveFiles [] ?loadable)"
  from assms have go: "\<not> (\<not> allowEmptyConfig \<and> ?loadable = [])"
    by (auto simp: filter_empty_conv)
  let ?c = "fst (NewFilesContainer l fs ?loadable)"
  let ?lg = "(l, LevelDebug, ''Loading configuration'') # snd (NewFilesContainer l fs ?loadable)"
  let ?v = "if length ?loadable > 1 then watchConfig (loadedStore fs ?loadable)
            else loadedStore fs ?loadable"
  have 1: "Load paths fs l allowEmptyConfig = (Inr ?c, ?lg)"
    using go by (simp add: Load_eq)
  have 2: "viper ?c = Some ?v"
    by (simp add: NewFilesContainer_eq)
  have 3: "config ?v = foldl absorb Map.empty ?outs"
    by (simp add: watchConfig_fields loadedStore_fields)
  have 4: "filter isWarn ?lg = concat (map (warningOf (initContainer l)) ?outs)"
    using warnings_isWarn [of "initContainer l" ?outs]
    by (simp add: NewFilesContainer_eq isWarn_def)
  have 5: "length (filter isWarn ?lg) = length (filter isl ?outs)"
    unfolding 4 by (rule warnings_length)
  from 1 2 3 4 5 show ?thesis by blast
qed

theorem Load_read_failures_logged_not_returned_witness:
  "(\<exists>path\<in>set [''first.yml'', ''broken.yml'']. Stat (memMapFs [(''first.yml'', Decodes firstMockFilesYaml), (''broken.yml'', Undecodable (OtherError ''yaml: line 2''))]) path = None)
   \<and> (\<exists>c v lg. Load [''first.yml'', ''broken.yml''] (memMapFs [(''first.yml'', Decodes firstMockFilesYaml), (''broken.yml'', Undecodable (OtherError ''yaml: line 2''))]) (Logger 0) False = (Inr c, lg)
         \<and> viper c = Some v \<and> config v = firstMockFilesYaml
         \<and> filter isWarn lg = [(Logger 0, LevelWarn, ''Could not read the config file (yaml: line 2)'')])"
proof -
  let ?fs = "memMapFs [(''first.yml'', Decodes firstMockFilesYaml), (''broken.yml'', Undecodable (OtherError ''yaml: line 2''))]"
  have h: "\<exists>path\<in>set [''first.yml'', ''broken.yml'']. Stat ?fs path = None"
    by (simp add: memMapFs_def)
  have st: "filter (\<lambda>path. Stat ?fs path = None) [''first.yml'', ''broken.yml''] = [''first.yml'', ''broken.yml'']"
    by (simp add: memMapFs_def)
  have outs: "map (fileOutcome ?fs) (effectiveFiles [] [''first.yml'', ''broken.yml''])
     = [Inr firstMockFilesYaml, Inl (OtherError ''yaml: line 2'')]"
    by (simp add: fileOutcome_def memMapFs_def)
  from h have "False \<or> (\<exists>path\<in>set [''first.yml'', ''broken.yml'']. Stat ?fs path = None)" by simp
  from Load_read_failures_logged_not_returned [OF this, of "Logger 0"] h
  show ?thesis
    unfolding st outs
    by (simp add: absorb_def warningOf_def handleReadFileError_def initContainer_def) blast
qed

lemma viper_MergeConfig_eq:
  "viper_MergeConfig r v =
     (v\<lparr>config := absorb (config v) (payloadOutcome r)\<rparr>,
      (case payloadOutcome r of Inl e \<Rightarrow> Some e | Inr s \<Rightarrow> None))"
  by (simp add: viper_MergeConfig_def payloadOutcome_def absorb_def split: payload.splits)

lemma viper_ReadConfig_eq:
  "config v = Map.empty \<Longrightarrow> viper_ReadConfig r v =
     (v\<lparr>config := absorb Map.empty (payloadOutcome r)\<rparr>,
      (case payloadOutcome r of Inl e \<Rightarrow> Some e | Inr s \<Rightarrow> None))"
  by (simp add: viper_ReadConfig_def payloadOutcome_def absorb_def split: payload.splits)

lemma mergeReaders_eq:
  "snd (mergeReaders c i rs (ident, v, lg)) =
     (v\<lparr>config := foldl absorb (config v) (map payloadOutcome rs)\<rparr>,
      lg @ concat (map (warningOf c) (map payloadOutcome rs)))"
proof (induction rs arbitrary: i ident v lg)
  case Nil
  show ?case by simp
next
  case (Cons r rest)
  show ?case
    by (simp add: viper_MergeConfig_eq Cons.IH handle_warningOf del: itoa.simps)
qed

lemma NewReaderContainer_store:
  "viper (fst (NewReaderContainer l format rs)) =
     Some ((viper_SetConfigType format initViper)
             \<lparr>config := foldl absorb Map.empty (map payloadOutcome rs)\<rparr>)"
proof (cases rs)
  case Nil
  then show ?thesis
    by (simp add: NewReaderContainer_def viper_SetConfigType_def initViper_def viper_AutomaticEnv_def viper_SetEnvKeyReplacer_def
      viper_SetTypeByDefaultValue_def viper_New_def)
next
  case (Cons r rest)
  have c0: "config (viper_SetConfigType format initViper) = Map.empty"
    by (simp add: viper_SetConfigType_def initViper_def viper_AutomaticEnv_def viper_SetEnvKeyReplacer_def
      viper_SetTypeByDefaultValue_def viper_New_def)
  obtain ident v lg where m: "mergeReaders (initContainer l) 0 rest
      (''0'', (viper_SetConfigType format initViper)\<lparr>config := absorb Map.empty (payloadOutcome r)\<rparr>,
       warningOf (initContainer l) (payloadOutcome r)) = (ident, v, lg)"
    by (cases "mergeReaders (initContainer l) 0 rest
      (''0'', (viper_SetConfigType format initViper)\<lparr>config := absorb Map.empty (payloadOutcome r)\<rparr>,
       warningOf (initContainer l) (payloadOutcome r))") auto
  from mergeReaders_eq [of "initContainer l" 0 rest "''0''"
      "(viper_SetConfigType format initViper)\<lparr>config := absorb Map.empty (payloadOutcome r)\<rparr>"
      "warningOf (initContainer l) (payloadOutcome r)"] m
  have v: "v = (viper_SetConfigType format initViper)
             \<lparr>config := foldl absorb Map.empty (map payloadOutcome (r # rest))\<rparr>"
    by simp
  show ?thesis
  proof (cases rest)
    case Nil
    with Cons show ?thesis
      by (simp add: NewReaderContainer_def Let_def viper_ReadConfig_eq [OF c0])
  next
    case (Cons r' rest')
    with \<open>rs = r # rest\<close> m v show ?thesis
      by (simp add: NewReaderContainer_def Let_def viper_ReadConfig_eq [OF c0] handle_warningOf
          del: mergeReaders.simps)
  qed
qed

text \<open>
  C10. \<open>LoadEmbed\<close> with no source names reads nothing and returns a container and no
  error: the identity is empty, the store has the type yaml, no settings, no handler and
  no watch, and the container has the logger it was given and no observers.
\<close>

theorem LoadEmbed_no_sources:
  "LoadEmbed [] fs l =
     (Inr \<lparr>ID = [],
           viper = Some \<lparr>configFile = [], configType = ''yaml'', config = Map.empty,
                         onConfigChange = False, watching = None,
                         automaticEnvApplied = True,
                         envKeyReplacer = Some (CHR ''.'', CHR ''_''),
                         typeByDefValue = True, parents = []\<rparr>,
           logger = l, observers = []\<rparr>,
      [(l, LevelDebug, ''Loading embedded configuration'')], [])"
  by (simp add: LoadEmbed_def NewReaderContainer_def initContainer_def viper_SetConfigType_def
      initViper_def viper_AutomaticEnv_def viper_SetEnvKeyReplacer_def
      viper_SetTypeByDefaultValue_def viper_New_def)

lemma readEmbedded_first_failure:
  "\<forall>q\<in>set pre. \<not> isl (fs q) \<Longrightarrow> fs path = Inl e \<Longrightarrow>
   readEmbedded fs (pre @ path # post) (configs, reads) =
     (Inl (errors_WrapPrefix e (''failed to read embedded config file '' @ path)),
      reads @ pre @ [path])"
proof (induction pre arbitrary: configs reads)
  case Nil
  then show ?case by simp
next
  case (Cons q pre)
  from Cons.prems obtain cfg where "fs q = Inr cfg"
    by (cases "fs q") auto
  with Cons show ?case by simp
qed

text \<open>
  C5. If \<open>ReadFile\<close> fails for some name of the list, \<open>LoadEmbed\<close> returns no container
  but an error: the error of the first name that fails, wrapped, with a message that
  starts with the prefix naming that source. It has read the names up to the failing one
  and no name after it, and has logged its debug line only: no container was built.
\<close>

theorem LoadEmbed_read_failure:
  assumes "\<exists>path\<in>set paths. isl (fs path)"
  shows "\<exists>pre path post e.
      paths = pre @ path # post \<and> (\<forall>q\<in>set pre. \<not> isl (fs q)) \<and> fs path = Inl e
    \<and> LoadEmbed paths fs l =
        (Inl (errors_WrapPrefix e (''failed to read embedded config file '' @ path)),
         [(l, LevelDebug, ''Loading embedded configuration'')],
         pre @ [path])
    \<and> Error (errors_WrapPrefix e (''failed to read embedded config file '' @ path))
        = ''failed to read embedded config file '' @ path @ '': '' @ Error e
    \<and> Is (errors_WrapPrefix e (''failed to read embedded config file '' @ path)) e"
proof -
  from assms obtain pre path post where
    paths: "paths = pre @ path # post" and fail: "isl (fs path)"
    and pre: "\<forall>q\<in>set pre. \<not> isl (fs q)"
    using split_list_first_prop [of paths "\<lambda>p. isl (fs p)"] by blast
  from fail obtain e where e: "fs path = Inl e"
    by (cases "fs path") auto
  have "LoadEmbed paths fs l =
        (Inl (errors_WrapPrefix e (''failed to read embedded config file '' @ path)),
         [(l, LevelDebug, ''Loading embedded configuration'')],
         pre @ [path])"
    unfolding LoadEmbed_def paths readEmbedded_first_failure [OF pre e] by simp
  moreover have "Is (errors_WrapPrefix e (''failed to read embedded config file '' @ path)) e"
    by (cases e) simp_all
  ultimately show ?thesis using paths pre e by fastforce
qed

theorem LoadEmbed_read_failure_witness:
  "(\<exists>path\<in>set [''config1.yaml'', ''config2.yaml'']. isl (emptyFS path))
   \<and> LoadEmbed [''config1.yaml'', ''config2.yaml''] emptyFS (Logger 0) =
       (Inl (errors_WrapPrefix (PathError ''config1.yaml'' ''file does not exist'')
               ''failed to read embedded config file config1.yaml''),
        [(Logger 0, LevelDebug, ''Loading embedded configuration'')],
        [''config1.yaml''])"
proof -
  have h: "\<exists>path\<in>set [''config1.yaml'', ''config2.yaml'']. isl (emptyFS path)"
    by (auto simp: emptyFS_def)
  from LoadEmbed_read_failure [OF h, of "Logger 0"] obtain pre path post e where
    p: "[''config1.yaml'', ''config2.yaml''] = pre @ path # post"
    and pre: "\<forall>q\<in>set pre. \<not> isl (emptyFS q)"
    and r: "LoadEmbed [''config1.yaml'', ''config2.yaml''] emptyFS (Logger 0) =
        (Inl (errors_WrapPrefix e (''failed to read embedded config file '' @ path)),
         [(Logger 0, LevelDebug, ''Loading embedded configuration'')], pre @ [path])"
    and e: "emptyFS path = Inl e"
    by blast
  from pre have "pre = []"
    by (cases pre) (auto simp: emptyFS_def)
  with p have "path = ''config1.yaml''" by simp
  with e have "e = PathError ''config1.yaml'' ''file does not exist''"
    by (simp add: emptyFS_def)
  with r \<open>pre = []\<close> \<open>path = ''config1.yaml''\<close> h show ?thesis by simp
qed

text \<open>
  C7, as amended. \<open>NewFilesContainer\<close> installs the change handler exactly when it is
  given two or more files, and then it starts the watch on the config file the store
  holds at that moment: the file set last. With names that are not empty this is the
  last file of the list (for two different files, not the first one). A container built
  from readers has no handler and no watch.
\<close>

theorem watch_armed_on_last_file:
  "map_option onConfigChange (viper (fst (NewFilesContainer l fs files))) = Some (2 \<le> length files)
   \<and> map_option watching (viper (fst (NewFilesContainer l fs files)))
       = Some (if 2 \<le> length files \<and> last (effectiveFiles [] files) \<noteq> []
               then Some (last (effectiveFiles [] files)) else None)
   \<and> (2 \<le> length files \<longrightarrow> [] \<notin> set files \<longrightarrow>
        map_option watching (viper (fst (NewFilesContainer l fs files))) = Some (Some (last files)))
   \<and> map_option onConfigChange (viper (fst (NewReaderContainer l format rs))) = Some False
   \<and> map_option watching (viper (fst (NewReaderContainer l format rs))) = Some None"
proof -
  have ne: "2 \<le> length files \<Longrightarrow> effectiveFiles [] files \<noteq> []"
    by (cases files) (auto split: if_splits)
  have 1: "map_option onConfigChange (viper (fst (NewFilesContainer l fs files))) = Some (2 \<le> length files)"
    by (auto simp: NewFilesContainer_eq watchConfig_fields loadedStore_fields)
  have 2: "map_option watching (viper (fst (NewFilesContainer l fs files)))
       = Some (if 2 \<le> length files \<and> last (effectiveFiles [] files) \<noteq> []
               then Some (last (effectiveFiles [] files)) else None)"
    using ne by (auto simp: NewFilesContainer_eq watchConfig_fields loadedStore_fields)
  have 3: "2 \<le> length files \<longrightarrow> [] \<notin> set files \<longrightarrow>
        map_option watching (viper (fst (NewFilesContainer l fs files))) = Some (Some (last files))"
  proof (intro impI)
    assume len: "2 \<le> length files" and "[] \<notin> set files"
    then have eff: "effectiveFiles [] files = files"
      by (simp add: effectiveFiles_nonempty)
    from len have "files \<noteq> []" by auto
    with \<open>[] \<notin> set files\<close> have "last files \<noteq> []"
      using last_in_set by metis
    with len show "map_option watching (viper (fst (NewFilesContainer l fs files))) = Some (Some (last files))"
      unfolding 2 eff by simp
  qed
  have 4: "map_option onConfigChange (viper (fst (NewReaderContainer l format rs))) = Some False"
    by (simp add: NewReaderContainer_store viper_SetConfigType_def initViper_def viper_AutomaticEnv_def viper_SetEnvKeyReplacer_def
      viper_SetTypeByDefaultValue_def viper_New_def)
  have 5: "map_option watching (viper (fst (NewReaderContainer l format rs))) = Some None"
    by (simp add: NewReaderContainer_store viper_SetConfigType_def initViper_def viper_AutomaticEnv_def viper_SetEnvKeyReplacer_def
      viper_SetTypeByDefaultValue_def viper_New_def)
  from 1 2 3 4 5 show ?thesis by blast
qed

theorem watch_armed_on_last_file_witness:
  "2 \<le> length [''first.yml'', ''second.yml''] \<and> [] \<notin> set [''first.yml'', ''second.yml'']
   \<and> map_option watching (viper (fst (NewFilesContainer (Logger 0) twoFiles [''first.yml'', ''second.yml'']))) = Some (Some ''second.yml'')"
  using watch_armed_on_last_file [of "Logger 0" twoFiles "[''first.yml'', ''second.yml'']"]
  by simp

text \<open>
  C7 as stated fails: with the two files of the tests the watch is not on the first.
\<close>

theorem watch_not_on_first_file_counterexample:
  "map_option watching
     (viper (fst (NewFilesContainer (Logger 0) twoFiles [''first.yml'', ''second.yml''])))
     = Some (Some ''second.yml'')
   \<and> map_option watching
     (viper (fst (NewFilesContainer (Logger 0) twoFiles [''first.yml'', ''second.yml''])))
     \<noteq> Some (Some ''first.yml'')"
  by (simp add: NewFilesContainer_eq watchConfig_fields loadedStore_fields)

section \<open>Properties of the lookup\<close>

lemma getEnv_noEnv: "getEnv noEnv v key = None"
  by (simp add: getEnv_def noEnv_def)

lemma viper_Get_noEnv:
  "viper_Get noEnv v key = searchMap (config v) (splitKey (strings_ToLower key))"
  by (simp add: viper_Get_def viper_find_def getEnv_noEnv isPathShadowedInAutoEnv_def
      list_ex_iff)

text \<open>
  A variable of the environment goes before the settings tree, under the name of the key
  in upper case with the dots replaced; and a variable for a parent of the key hides the
  key in the tree.
\<close>

lemma viper_Get_env_example:
  "viper_Get [''YAML_KEY'' \<mapsto> ''fromenv''] (initViper\<lparr>config := secondMockFilesYaml\<rparr>) ''Yaml.Key''
     = Some (Leaf (VStr ''fromenv''))"
  by (simp add: viper_Get_def viper_find_def getEnv_def initViper_def viper_AutomaticEnv_def
      viper_SetEnvKeyReplacer_def viper_SetTypeByDefaultValue_def viper_New_def
      strings_ToLower_def strings_ToUpper_def mergeWithEnvPrefix_def Replace_def Let_def)

lemma viper_Get_shadowed_example:
  "viper_Get [''YAML'' \<mapsto> ''x''] (initViper\<lparr>config := secondMockFilesYaml\<rparr>) ''yaml.key'' = None"
  by (simp add: viper_Get_def viper_find_def getEnv_def initViper_def viper_AutomaticEnv_def
      viper_SetEnvKeyReplacer_def viper_SetTypeByDefaultValue_def viper_New_def
      strings_ToLower_def strings_ToUpper_def mergeWithEnvPrefix_def Replace_def Let_def
      isPathShadowedInAutoEnv_def)

section \<open>Properties of the container\<close>

lemma Load_store: "Load paths fs l a = (Inr c, lg) \<Longrightarrow> \<exists>v. viper c = Some v"
  by (auto simp: Load_eq NewFilesContainer_eq split: if_splits)

lemma LoadEmbed_eq:
  "LoadEmbed paths fs l =
     (case readEmbedded fs paths ([], []) of
        (Inl e, reads) \<Rightarrow> (Inl e, [(l, LevelDebug, ''Loading embedded configuration'')], reads)
      | (Inr configs, reads) \<Rightarrow>
          (Inr (fst (NewReaderContainer l ''yaml'' configs)),
           (l, LevelDebug, ''Loading embedded configuration'')
             # snd (NewReaderContainer l ''yaml'' configs), reads))"
  by (simp add: LoadEmbed_def split: prod.splits sum.splits)

lemma LoadEmbed_store: "LoadEmbed paths fs l = (Inr c, lg, reads) \<Longrightarrow> \<exists>v. viper c = Some v"
  by (auto simp: LoadEmbed_eq NewReaderContainer_store split: prod.splits sum.splits)

text \<open>
  With a store in the parent, \<open>Sub\<close> returns a container with the identity of the parent
  followed by \<open>#\<close> and the key, the logger of the parent and no observers; and \<open>ToJSON\<close>
  returns the output of the encoder for all settings of the store, or the empty string
  and one error record when the encoder fails.
\<close>

lemma Sub_with_store:
  "viper c = Some v \<Longrightarrow>
   Sub env c key = Inr \<lparr>ID = ID c @ ''#'' @ key, viper = viper_Sub env v key,
                         logger = logger c, observers = []\<rparr>"
  by (simp add: Sub_def)

lemma viper_Sub_Some_iff:
  "(viper_Sub env v key \<noteq> None) = (\<exists>m. viper_Get env v key = Some (Node m))"
  by (simp add: viper_Sub_def split: option.splits setting.splits)

lemma ToJSON_with_store:
  "viper c = Some v \<Longrightarrow>
   ToJSON env enc c =
     Inr (case enc (viper_AllSettings env v) of
            Inr bs \<Rightarrow> (bs, [])
          | Inl e \<Rightarrow> ([], [(logger c, LevelError, ''unable to marshal config to YAML'')]))"
  by (simp add: ToJSON_def json_Marshal_def split: sum.splits)

lemma secondReader_eq:
  "secondReader = \<lparr>ID = ''0'',
      viper = Some \<lparr>configFile = [], configType = ''yaml'', config = secondMockFilesYaml,
                    onConfigChange = False, watching = None,
                    automaticEnvApplied = True, envKeyReplacer = Some (CHR ''.'', CHR ''_''),
                    typeByDefValue = True, parents = []\<rparr>,
      logger = Logger 0, observers = []\<rparr>"
  by (simp add: secondReader_def NewReaderContainer_def viper_ReadConfig_def
      viper_SetConfigType_def initViper_def viper_AutomaticEnv_def viper_SetEnvKeyReplacer_def
      viper_SetTypeByDefaultValue_def viper_New_def initContainer_def handleReadFileError_def)

lemma Sub_missing: "Sub env secondReader ''missing'' = Inr missingSub"
  by (simp add: Sub_def secondReader_eq viper_Sub_def viper_Get_def viper_find_def getEnv_def
      strings_ToLower_def secondMockFilesYaml_def missingSub_def Let_def
      split: option.splits)

text \<open>The key is looked up in lower case, and the new store remembers it.\<close>

lemma Sub_existing_key_example:
  "Sub noEnv secondReader ''YAML.More'' =
     Inr \<lparr>ID = ''0#YAML.More'',
          viper = Some \<lparr>configFile = [], configType = [],
                        config = [''key2'' \<mapsto> Leaf (VStr ''secondfile'')],
                        onConfigChange = False, watching = None,
                        automaticEnvApplied = True,
                        envKeyReplacer = Some (CHR ''.'', CHR ''_''),
                        typeByDefValue = False, parents = [''yaml.more'']\<rparr>,
          logger = Logger 0, observers = []\<rparr>"
  by (simp add: Sub_def secondReader_eq viper_Sub_def viper_Get_noEnv strings_ToLower_def
      secondMockFilesYaml_def viper_New_def)

text \<open>
  \<^verbatim>\<open>AllSettings\<close> keeps a nested map as soon as one of its keys holds a value, which makes
  it computable on a given tree; it gives the settings of the tree, with the value of the
  environment where there is one, and \<open>ToJSON\<close> hands them to the encoder.
\<close>

lemma allSettings_value_Node:
  assumes "(case map_option allSettings_value (n k0) of
              None \<Rightarrow> None
            | Some f \<Rightarrow> f get (path @ [k0])) \<noteq> None"
  shows "allSettings_value (Node n) get path =
     Some (Node (\<lambda>k. case map_option allSettings_value (n k) of
                          None \<Rightarrow> None
                        | Some f \<Rightarrow> f get (path @ [k])))"
proof -
  have "\<not> (\<forall>k. (case map_option allSettings_value (n k) of
                   None \<Rightarrow> None
                 | Some f \<Rightarrow> f get (path @ [k])) = None)"
  proof
    assume "\<forall>k. (case map_option allSettings_value (n k) of
                   None \<Rightarrow> None
                 | Some f \<Rightarrow> f get (path @ [k])) = None"
    then have "(case map_option allSettings_value (n k0) of
                   None \<Rightarrow> None
                 | Some f \<Rightarrow> f get (path @ [k0])) = None" ..
    with assms show False by contradiction
  qed
  then show ?thesis by simp
qed

lemma AllSettings_example:
  "searchMap (viper_AllSettings noEnv
       \<lparr>configFile = [], configType = ''yaml'', config = secondMockFilesYaml,
        onConfigChange = False, watching = None,
        automaticEnvApplied = True, envKeyReplacer = Some (CHR ''.'', CHR ''_''),
        typeByDefValue = True, parents = []\<rparr>)
     [''yaml'', ''more'', ''key2''] = Some (Leaf (VStr ''secondfile''))"
proof -
  let ?v = "\<lparr>configFile = [], configType = ''yaml'', config = secondMockFilesYaml,
        onConfigChange = False, watching = None,
        automaticEnvApplied = True, envKeyReplacer = Some (CHR ''.'', CHR ''_''),
        typeByDefValue = True, parents = []\<rparr>"
  let ?get = "\<lambda>path. viper_Get noEnv ?v (strings_Join path ''.'')"
  let ?more = "[''key2'' \<mapsto> Leaf (VStr ''secondfile'')]"
  let ?yaml = "[''key'' \<mapsto> Leaf (VStr ''value2''), ''more'' \<mapsto> Node ?more]"
  have g: "viper_Get noEnv ?v ''yaml.more.key2'' = Some (Leaf (VStr ''secondfile''))"
    by (simp add: viper_Get_noEnv strings_ToLower_def secondMockFilesYaml_def)
  have more: "allSettings_value (Node ?more) ?get [''yaml'', ''more''] =
      Some (Node (\<lambda>k. case map_option allSettings_value (?more k) of
                          None \<Rightarrow> None
                        | Some f \<Rightarrow> f ?get ([''yaml'', ''more''] @ [k])))"
    by (rule allSettings_value_Node [where ?k0.0 = "''key2''"])
       (simp add: viper_Get_noEnv strings_ToLower_def secondMockFilesYaml_def)
  have yaml: "allSettings_value (Node ?yaml) ?get [''yaml''] =
      Some (Node (\<lambda>k. case map_option allSettings_value (?yaml k) of
                          None \<Rightarrow> None
                        | Some f \<Rightarrow> f ?get ([''yaml''] @ [k])))"
    by (rule allSettings_value_Node [where ?k0.0 = "''more''"]) (simp add: g)
  have top: "viper_AllSettings noEnv ?v ''yaml'' = allSettings_value (Node ?yaml) ?get [''yaml'']"
    by (simp add: viper_AllSettings_def secondMockFilesYaml_def)
  show ?thesis
    unfolding searchMap.simps top yaml
    by (simp add: more g)
qed

lemma AllSettings_env_example:
  "searchMap (viper_AllSettings [''YAML_KEY'' \<mapsto> ''fromenv'']
                (initViper\<lparr>config := secondMockFilesYaml\<rparr>)) [''yaml'', ''key'']
     = Some (Leaf (VStr ''fromenv''))"
proof -
  let ?env = "[''YAML_KEY'' \<mapsto> ''fromenv'']"
  let ?v = "initViper\<lparr>config := secondMockFilesYaml\<rparr>"
  let ?get = "\<lambda>path. viper_Get ?env ?v (strings_Join path ''.'')"
  let ?more = "[''key2'' \<mapsto> Leaf (VStr ''secondfile'')]"
  let ?yaml = "[''key'' \<mapsto> Leaf (VStr ''value2''), ''more'' \<mapsto> Node ?more]"
  have g: "viper_Get ?env ?v ''yaml.key'' = Some (Leaf (VStr ''fromenv''))"
    by (simp add: viper_Get_def viper_find_def getEnv_def initViper_def viper_AutomaticEnv_def
      viper_SetEnvKeyReplacer_def viper_SetTypeByDefaultValue_def viper_New_def
      strings_ToLower_def strings_ToUpper_def mergeWithEnvPrefix_def Replace_def Let_def)
  have yaml: "allSettings_value (Node ?yaml) ?get [''yaml''] =
      Some (Node (\<lambda>k. case map_option allSettings_value (?yaml k) of
                          None \<Rightarrow> None
                        | Some f \<Rightarrow> f ?get ([''yaml''] @ [k])))"
    by (rule allSettings_value_Node [where ?k0.0 = "''key''"]) (simp add: g)
  have top: "viper_AllSettings ?env ?v ''yaml'' = allSettings_value (Node ?yaml) ?get [''yaml'']"
    by (simp add: viper_AllSettings_def secondMockFilesYaml_def)
  show ?thesis
    unfolding searchMap.simps top yaml
    by (simp add: g)
qed

lemma ToJSON_example:
  "ToJSON noEnv
     (\<lambda>s. case searchMap s [''yaml'', ''more'', ''key2''] of
             Some (Leaf (VStr x)) \<Rightarrow> Inr x
           | _ \<Rightarrow> Inl (OtherError ''unsupported value''))
     secondReader = Inr (''secondfile'', [])"
proof -
  have v: "viper secondReader =
      Some \<lparr>configFile = [], configType = ''yaml'', config = secondMockFilesYaml,
            onConfigChange = False, watching = None,
            automaticEnvApplied = True, envKeyReplacer = Some (CHR ''.'', CHR ''_''),
            typeByDefValue = True, parents = []\<rparr>"
    by (simp add: secondReader_eq)
  show ?thesis
    unfolding ToJSON_with_store [OF v] AllSettings_example by simp
qed

text \<open>
  C4. For a key that does not exist the code gives the new container no store: in every
  environment, \<open>Sub\<close> on the container of \<^verbatim>\<open>TestContainer_Sub\<close> with the key \<open>missing\<close>
  returns a container whose store is nil, not an empty store, and an accessor of that
  container panics.
\<close>

theorem Sub_missing_key_gives_nil_store:
  "Sub env secondReader ''missing'' = Inr missingSub
   \<and> viper missingSub = None
   \<and> Get env missingSub ''key2'' = Inl NilPointerDereference"
  by (simp add: Sub_missing) (simp add: missingSub_def Get_def)

text \<open>
  C8. On the container that \<open>Sub\<close> returned for the key that does not exist, \<open>Sub\<close> returns
  no container at all: it calls the store's method through the nil pointer and panics.
\<close>

theorem Sub_on_nil_store_parent_panics:
  "Sub env secondReader ''missing'' = Inr missingSub
   \<and> Sub env missingSub ''key2'' = Inl NilPointerDereference"
  by (simp add: Sub_missing) (simp add: missingSub_def Sub_def)

text \<open>
  C9. On the container that \<open>Sub\<close> returned for the key that does not exist, \<open>ToJSON\<close>
  returns no string, for any encoder: it panics before anything is encoded or logged.
\<close>

theorem ToJSON_on_nil_store_panics:
  "Sub env secondReader ''missing'' = Inr missingSub
   \<and> ToJSON env enc missingSub = Inl NilPointerDereference"
  by (simp add: Sub_missing) (simp add: missingSub_def ToJSON_def)

section \<open>Properties of the merge\<close>

lemma merge_value_Node: "merge_value (Node s) (Node t) = Node (mergeMaps s t)"
  by (simp add: mergeMaps_def fun_eq_iff split: option.splits)

lemma merge_value_Leaf_Node: "merge_value (Leaf x) (Node t) = Node t"
  by simp

lemma mergeMaps_undefined:
  "searchMap s p = None \<Longrightarrow> searchMap (mergeMaps s t) p = searchMap t p"
proof (induction p arbitrary: s t)
  case Nil
  then show ?case by simp
next
  case (Cons k ks)
  show ?case
  proof (cases "s k")
    case None
    then show ?thesis by (simp add: mergeMaps_def)
  next
    case (Some sv)
    show ?thesis
    proof (cases sv)
      case (Leaf x)
      with Some Cons.prems have ks: "ks \<noteq> []"
        by (auto split: if_splits)
      show ?thesis
      proof (cases "t k")
        case None
        with Some Leaf ks show ?thesis by (simp add: mergeMaps_def)
      next
        case (Some tv)
        with \<open>s k = Some sv\<close> Leaf ks show ?thesis
          by (cases tv) (simp_all add: mergeMaps_def)
      qed
    next
      case (Node n)
      with Some Cons.prems have n: "searchMap n ks = None" by simp
      then have ks: "ks \<noteq> []" by auto
      show ?thesis
      proof (cases "t k")
        case None
        with Some Node n show ?thesis by (simp add: mergeMaps_def)
      next
        case (Some tv)
        show ?thesis
        proof (cases tv)
          case (Leaf y)
          with \<open>s k = Some sv\<close> Some Node n ks show ?thesis
            by (simp add: mergeMaps_def)
        next
          case tn: (Node tn)
          have "searchMap (mergeMaps n tn) ks = searchMap tn ks"
            by (rule Cons.IH [OF n])
          with \<open>s k = Some sv\<close> Some Node tn show ?thesis
            by (simp add: mergeMaps_def [of s t] merge_value_Node del: merge_value.simps)
        qed
      qed
    qed
  qed
qed

lemma mergeMaps_leaf:
  "searchMap s p = Some (Leaf x) \<Longrightarrow>
   searchMap (mergeMaps s t) p =
     (case searchMap t p of Some (Node m) \<Rightarrow> Some (Node m) | _ \<Rightarrow> Some (Leaf x))"
proof (induction p arbitrary: s t)
  case Nil
  then show ?case by simp
next
  case (Cons k ks)
  from Cons.prems obtain sv where sk: "s k = Some sv"
    by (cases "s k") auto
  show ?case
  proof (cases sv)
    case (Leaf y)
    with sk Cons.prems have e: "ks = []" "y = x"
      by (auto split: if_splits)
    show ?thesis
    proof (cases "t k")
      case None
      with sk Leaf e show ?thesis by (simp add: mergeMaps_def)
    next
      case (Some tv)
      with sk Leaf e show ?thesis
        by (cases tv) (simp_all add: mergeMaps_def)
    qed
  next
    case (Node n)
    with sk Cons.prems have n: "searchMap n ks = Some (Leaf x)" by simp
    then have ks: "ks \<noteq> []" by auto
    show ?thesis
    proof (cases "t k")
      case None
      with sk Node n show ?thesis by (simp add: mergeMaps_def)
    next
      case (Some tv)
      show ?thesis
      proof (cases tv)
        case (Leaf y)
        with sk Some \<open>sv = Node n\<close> n ks show ?thesis
          by (simp add: mergeMaps_def)
      next
        case tn: (Node tn)
        have "searchMap (mergeMaps n tn) ks =
          (case searchMap tn ks of Some (Node m) \<Rightarrow> Some (Node m) | _ \<Rightarrow> Some (Leaf x))"
          by (rule Cons.IH [OF n])
        with sk Some \<open>sv = Node n\<close> tn show ?thesis
          by (simp add: mergeMaps_def [of s t] merge_value_Node del: merge_value.simps)
      qed
    qed
  qed
qed

lemma absorb_undefined: "undefinedBy out p \<Longrightarrow> searchMap (absorb m out) p = searchMap m p"
  by (cases out) (simp_all add: absorb_def undefinedBy_def mergeMaps_undefined)

lemma foldl_absorb_undefined:
  "\<forall>out\<in>set outs. undefinedBy out p \<Longrightarrow> searchMap (foldl absorb m outs) p = searchMap m p"
  by (induction outs arbitrary: m) (simp_all add: absorb_undefined)

lemma foldl_absorb_leaf:
  "searchMap s p = Some (Leaf x) \<Longrightarrow>
   searchMap (foldl absorb m (outs @ [Inr s])) p =
     (case searchMap (foldl absorb m outs) p of
        Some (Node n) \<Rightarrow> Some (Node n) | _ \<Rightarrow> Some (Leaf x))"
  by (simp add: absorb_def mergeMaps_leaf)

lemma settingAt_readers:
  "settingAt (fst (NewReaderContainer l format rs)) p =
     searchMap (foldl absorb Map.empty (map payloadOutcome rs)) p"
  by (simp add: settingAt_def NewReaderContainer_store)

lemma settingAt_files:
  "settingAt (fst (NewFilesContainer l fs files)) p =
     searchMap (foldl absorb Map.empty (map (fileOutcome fs) (effectiveFiles [] files))) p"
  by (simp add: settingAt_def NewFilesContainer_eq watchConfig_fields loadedStore_fields)

lemma effectiveFiles_append:
  "effectiveFiles cur (xs @ ys) =
     effectiveFiles cur xs @ effectiveFiles (last (cur # effectiveFiles cur xs)) ys"
  by (induction xs arbitrary: cur) auto

lemma Get_noEnv_readers:
  "Get noEnv (fst (NewReaderContainer l format rs)) key =
     Inr (settingAt (fst (NewReaderContainer l format rs)) (splitKey (strings_ToLower key)))"
  by (simp add: Get_def settingAt_def NewReaderContainer_store viper_Get_noEnv)

lemma Get_noEnv_files:
  "Get noEnv (fst (NewFilesContainer l fs files)) key =
     Inr (settingAt (fst (NewFilesContainer l fs files)) (splitKey (strings_ToLower key)))"
  by (simp add: Get_def settingAt_def NewFilesContainer_eq viper_Get_noEnv)

text \<open>
  C2, as amended. Sources are merged in the order of the list, for readers and for files
  alike. The sources that do not define a key do not change it: loading them after the
  others leaves at the key what the others gave (so values of earlier sources and
  siblings of redefined keys survive). A leaf value that the last source defines for a
  key is the value of the key in the container, unless the earlier sources hold a nested
  map at the key: then the map is kept and the scalar is dropped. Without variables in
  the environment, \<open>Get\<close> reads the key, in lower case, from this tree.
\<close>

theorem merged_in_order_maps_kept:
  "((\<forall>r\<in>set post. undefinedBy (payloadOutcome r) p) \<longrightarrow>
      settingAt (fst (NewReaderContainer l format (pre @ post))) p
        = settingAt (fst (NewReaderContainer l format pre)) p)
   \<and> (searchMap s p = Some (Leaf x) \<longrightarrow>
      settingAt (fst (NewReaderContainer l format (pre @ [Decodes s]))) p
        = (case settingAt (fst (NewReaderContainer l format pre)) p of
             Some (Node m) \<Rightarrow> Some (Node m)
           | _ \<Rightarrow> Some (Leaf x)))
   \<and> ((\<forall>g\<in>set fpost. g \<noteq> [] \<and> undefinedBy (fileOutcome fs g) p) \<longrightarrow>
      settingAt (fst (NewFilesContainer l fs (fpre @ fpost))) p
        = settingAt (fst (NewFilesContainer l fs fpre)) p)
   \<and> (f \<noteq> [] \<longrightarrow> ReadFile fs f = Inr (Decodes s) \<longrightarrow> searchMap s p = Some (Leaf x) \<longrightarrow>
      settingAt (fst (NewFilesContainer l fs (fpre @ [f]))) p
        = (case settingAt (fst (NewFilesContainer l fs fpre)) p of
             Some (Node m) \<Rightarrow> Some (Node m)
           | _ \<Rightarrow> Some (Leaf x)))
   \<and> Get noEnv (fst (NewReaderContainer l format rs)) key
        = Inr (settingAt (fst (NewReaderContainer l format rs)) (splitKey (strings_ToLower key)))
   \<and> Get noEnv (fst (NewFilesContainer l fs files)) key
        = Inr (settingAt (fst (NewFilesContainer l fs files)) (splitKey (strings_ToLower key)))"
proof (intro conjI impI)
  assume "\<forall>r\<in>set post. undefinedBy (payloadOutcome r) p"
  then have "\<forall>out\<in>set (map payloadOutcome post). undefinedBy out p"
    by simp
  from foldl_absorb_undefined [OF this]
  show "settingAt (fst (NewReaderContainer l format (pre @ post))) p
        = settingAt (fst (NewReaderContainer l format pre)) p"
    by (simp add: settingAt_readers)
next
  assume "searchMap s p = Some (Leaf x)"
  from foldl_absorb_leaf [OF this, of Map.empty "map payloadOutcome pre"]
  show "settingAt (fst (NewReaderContainer l format (pre @ [Decodes s]))) p
        = (case settingAt (fst (NewReaderContainer l format pre)) p of
             Some (Node m) \<Rightarrow> Some (Node m)
           | _ \<Rightarrow> Some (Leaf x))"
    by (simp add: settingAt_readers payloadOutcome_def)
next
  assume a: "\<forall>g\<in>set fpost. g \<noteq> [] \<and> undefinedBy (fileOutcome fs g) p"
  then have "[] \<notin> set fpost" by auto
  then have eff: "effectiveFiles [] (fpre @ fpost) = effectiveFiles [] fpre @ fpost"
    by (simp add: effectiveFiles_append effectiveFiles_nonempty)
  from a have "\<forall>out\<in>set (map (fileOutcome fs) fpost). undefinedBy out p"
    by simp
  from foldl_absorb_undefined [OF this]
  show "settingAt (fst (NewFilesContainer l fs (fpre @ fpost))) p
        = settingAt (fst (NewFilesContainer l fs fpre)) p"
    unfolding settingAt_files eff by simp
next
  assume f: "f \<noteq> []" and r: "ReadFile fs f = Inr (Decodes s)"
    and s: "searchMap s p = Some (Leaf x)"
  from f have eff: "effectiveFiles [] (fpre @ [f]) = effectiveFiles [] fpre @ [f]"
    by (simp add: effectiveFiles_append)
  from f r have out: "fileOutcome fs f = Inr s"
    by (simp add: fileOutcome_def)
  from foldl_absorb_leaf [OF s, of Map.empty "map (fileOutcome fs) (effectiveFiles [] fpre)"]
  show "settingAt (fst (NewFilesContainer l fs (fpre @ [f]))) p
        = (case settingAt (fst (NewFilesContainer l fs fpre)) p of
             Some (Node m) \<Rightarrow> Some (Node m)
           | _ \<Rightarrow> Some (Leaf x))"
    unfolding settingAt_files eff by (simp add: out)
next
  show "Get noEnv (fst (NewReaderContainer l format rs)) key
        = Inr (settingAt (fst (NewReaderContainer l format rs)) (splitKey (strings_ToLower key)))"
    by (rule Get_noEnv_readers)
next
  show "Get noEnv (fst (NewFilesContainer l fs files)) key
        = Inr (settingAt (fst (NewFilesContainer l fs files)) (splitKey (strings_ToLower key)))"
    by (rule Get_noEnv_files)
qed

lemma settingAt_first_file:
  "settingAt (fst (NewFilesContainer (Logger 0) twoFiles [''first.yml''])) [''yaml'', ''bool'']
     = Some (Leaf (VBool True))"
  "settingAt (fst (NewFilesContainer (Logger 0) twoFiles [''first.yml''])) [''yaml'', ''key'']
     = Some (Leaf (VStr ''value''))"
  by (simp_all add: settingAt_files fileOutcome_def twoFiles_def memMapFs_def absorb_def
      firstMockFilesYaml_def)

theorem merged_in_order_maps_kept_witness:
  "undefinedBy (fileOutcome twoFiles ''second.yml'') [''yaml'', ''bool'']
   \<and> settingAt (fst (NewFilesContainer (Logger 0) twoFiles [''first.yml'', ''second.yml'']))
        [''yaml'', ''bool''] = Some (Leaf (VBool True))
   \<and> ReadFile twoFiles ''second.yml'' = Inr (Decodes secondMockFilesYaml)
   \<and> searchMap secondMockFilesYaml [''yaml'', ''key''] = Some (Leaf (VStr ''value2''))
   \<and> settingAt (fst (NewFilesContainer (Logger 0) twoFiles [''first.yml'', ''second.yml'']))
        [''yaml'', ''key''] = Some (Leaf (VStr ''value2''))
   \<and> Get noEnv (fst (NewFilesContainer (Logger 0) twoFiles [''first.yml'', ''second.yml'']))
        ''Yaml.Key'' = Inr (Some (Leaf (VStr ''value2'')))"
proof -
  have u: "undefinedBy (fileOutcome twoFiles ''second.yml'') [''yaml'', ''bool'']"
    by (simp add: undefinedBy_def fileOutcome_def twoFiles_def memMapFs_def
        secondMockFilesYaml_def)
  have r: "ReadFile twoFiles ''second.yml'' = Inr (Decodes secondMockFilesYaml)"
    by (simp add: twoFiles_def memMapFs_def)
  have d: "searchMap secondMockFilesYaml [''yaml'', ''key''] = Some (Leaf (VStr ''value2''))"
    by (simp add: secondMockFilesYaml_def)
  have low: "splitKey (strings_ToLower ''Yaml.Key'') = [''yaml'', ''key'']"
    by (simp add: strings_ToLower_def)
  from merged_in_order_maps_kept [where p = "[''yaml'', ''bool'']" and l = "Logger 0"
      and fs = twoFiles and fpre = "[''first.yml'']" and fpost = "[''second.yml'']"] u
  have kept: "settingAt (fst (NewFilesContainer (Logger 0) twoFiles [''first.yml'', ''second.yml'']))
        [''yaml'', ''bool''] = Some (Leaf (VBool True))"
    by (simp add: settingAt_first_file)
  from merged_in_order_maps_kept [where p = "[''yaml'', ''key'']" and l = "Logger 0"
      and fs = twoFiles and fpre = "[''first.yml'']" and f = "''second.yml''"
      and s = secondMockFilesYaml and x = "VStr ''value2''"
      and files = "[''first.yml'', ''second.yml'']" and key = "''Yaml.Key''"] r d
  have wins: "settingAt (fst (NewFilesContainer (Logger 0) twoFiles [''first.yml'', ''second.yml'']))
        [''yaml'', ''key''] = Some (Leaf (VStr ''value2''))"
    and get: "Get noEnv (fst (NewFilesContainer (Logger 0) twoFiles [''first.yml'', ''second.yml'']))
        ''Yaml.Key'' = Inr (settingAt (fst (NewFilesContainer (Logger 0) twoFiles
          [''first.yml'', ''second.yml''])) (splitKey (strings_ToLower ''Yaml.Key'')))"
    by (simp_all add: settingAt_first_file)
  from u kept r d wins get low show ?thesis by simp
qed

text \<open>
  C2 as stated fails: the second source defines the key \<open>a\<close>, and the container still
  holds the nested map of the first source there.
\<close>

theorem later_scalar_dropped_counterexample:
  "searchMap scalarSecond [''a''] = Some (Leaf (VStr ''x''))
   \<and> settingAt (fst (NewReaderContainer (Logger 0) ''yaml'' [Decodes nestedFirst, Decodes scalarSecond]))
        [''a''] = Some (Node [''b'' \<mapsto> Leaf (VInt 1)])
   \<and> Get noEnv (fst (NewReaderContainer (Logger 0) ''yaml'' [Decodes nestedFirst, Decodes scalarSecond]))
        ''a'' \<noteq> Inr (Some (Leaf (VStr ''x'')))"
  by (simp add: Get_noEnv_readers settingAt_readers payloadOutcome_def absorb_def mergeMaps_def
      nestedFirst_def scalarSecond_def strings_ToLower_def)

section \<open>Properties of the notification round\<close>

lemma round_inv_start: "round_inv c errs (startRound c)"
  by (simp add: round_inv_def startRound_def)

lemma round_inv_step:
  assumes "step c errs s s'" and "round_inv c errs s"
  shows "round_inv c errs s'"
  using assms
proof (cases rule: step.cases)
  case (go ob rest)
  with assms(2) show ?thesis
    by (simp add: round_inv_def)
next
  case (Run_call ob)
  then obtain M where M: "spawned s = add_mset ob M"
    by (meson multi_member_split)
  with Run_call assms(2) show ?thesis
    by (auto simp: round_inv_def)
next
  case (Run_return ob)
  then obtain M where M: "running s = add_mset ob M"
    by (meson multi_member_split)
  with Run_return assms(2) show ?thesis
    by (auto simp: round_inv_def)
next
  case (wg_Done ob)
  then obtain M where M: "finishing s = add_mset ob M"
    by (meson multi_member_split)
  with wg_Done assms(2) show ?thesis
    by (auto simp: round_inv_def)
next
  case wg_Wait
  from assms(2) have "wg s = int (size (spawned s) + size (running s) + size (finishing s))"
    unfolding round_inv_def by blast
  with wg_Wait(3) have "size (spawned s) + size (running s) + size (finishing s) = 0"
    by linarith
  then have "spawned s = {#}" "running s = {#}" "finishing s = {#}"
    by simp_all
  with wg_Wait assms(2) show ?thesis
    by (simp add: round_inv_def)
qed

lemma round_inv_reachable:
  "rtranclp (step c errs) (startRound c) s \<Longrightarrow> round_inv c errs s"
  by (induction rule: rtranclp_induct) (simp_all add: round_inv_start round_inv_step)


lemma run_one:
  assumes "pending s = ob # rest" and "\<not> returned s"
  shows "rtranclp (step c errs) s
           (s\<lparr>pending := rest, calls := calls s @ [(ob, c, errs)], finished := finished s + 1\<rparr>)"
proof -
  let ?s1 = "s\<lparr>pending := rest, wg := wg s + 1, spawned := add_mset ob (spawned s)\<rparr>"
  let ?s2 = "?s1\<lparr>spawned := spawned ?s1 - {#ob#}, running := add_mset ob (running ?s1),
                 calls := calls ?s1 @ [(ob, c, errs)]\<rparr>"
  let ?s3 = "?s2\<lparr>running := running ?s2 - {#ob#}, finishing := add_mset ob (finishing ?s2),
                 finished := finished ?s2 + 1\<rparr>"
  let ?s4 = "?s3\<lparr>finishing := finishing ?s3 - {#ob#}, wg := wg ?s3 - 1\<rparr>"
  have 1: "step c errs s ?s1"
    using assms by (rule step.go)
  have 2: "step c errs ?s1 ?s2"
    by (rule step.Run_call) simp
  have 3: "step c errs ?s2 ?s3"
    by (rule step.Run_return) simp
  have 4: "step c errs ?s3 ?s4"
    by (rule step.wg_Done) simp
  have e: "?s4 = s\<lparr>pending := rest, calls := calls s @ [(ob, c, errs)], finished := finished s + 1\<rparr>"
    by simp
  from 1 2 3 4 have "rtranclp (step c errs) s ?s4"
    by (meson rtranclp.rtrancl_into_rtrancl rtranclp.rtrancl_refl)
  with e show ?thesis by simp
qed

lemma run_all:
  "\<not> returned s \<Longrightarrow>
   rtranclp (step c errs) s
     (s\<lparr>pending := [], calls := calls s @ map (\<lambda>ob. (ob, c, errs)) (pending s),
        finished := finished s + length (pending s)\<rparr>)"
proof (induction "pending s" arbitrary: s)
  case Nil
  then have "s\<lparr>pending := [], calls := calls s @ map (\<lambda>ob. (ob, c, errs)) (pending s),
        finished := finished s + length (pending s)\<rparr> = s"
    by simp
  then show ?case by simp
next
  case (Cons ob rest)
  let ?s1 = "s\<lparr>pending := rest, calls := calls s @ [(ob, c, errs)], finished := finished s + 1\<rparr>"
  from Cons.hyps(2) Cons.prems have a: "rtranclp (step c errs) s ?s1"
    by (intro run_one) simp_all
  have "rtranclp (step c errs) ?s1
     (?s1\<lparr>pending := [], calls := calls ?s1 @ map (\<lambda>ob. (ob, c, errs)) (pending ?s1),
        finished := finished ?s1 + length (pending ?s1)\<rparr>)"
    using Cons.prems by (intro Cons.hyps(1)) simp_all
  moreover have "?s1\<lparr>pending := [], calls := calls ?s1 @ map (\<lambda>ob. (ob, c, errs)) (pending ?s1),
        finished := finished ?s1 + length (pending ?s1)\<rparr>
     = s\<lparr>pending := [], calls := calls s @ map (\<lambda>ob. (ob, c, errs)) (pending s),
        finished := finished s + length (pending s)\<rparr>"
    using Cons.hyps(2) [symmetric] by simp
  ultimately show ?case using a by simp
qed

lemma round_can_complete: "rtranclp (step c errs) (startRound c) (finalRound c errs)"
proof -
  let ?s = "(startRound c)\<lparr>pending := [],
      calls := calls (startRound c) @ map (\<lambda>ob. (ob, c, errs)) (pending (startRound c)),
      finished := finished (startRound c) + length (pending (startRound c))\<rparr>"
  have a: "rtranclp (step c errs) (startRound c) ?s"
    by (rule run_all) (simp add: startRound_def)
  have "step c errs ?s (?s\<lparr>returned := True\<rparr>)"
    by (rule step.wg_Wait) (simp_all add: startRound_def)
  moreover have "?s\<lparr>returned := True\<rparr> = finalRound c errs"
    by (simp add: startRound_def finalRound_def)
  ultimately show ?thesis using a by simp
qed

lemma round_progress:
  assumes "round_inv c errs s" and "\<not> returned s"
  shows "\<exists>s'. step c errs s s'"
proof (cases "pending s")
  case (Cons ob rest)
  with assms(2) show ?thesis by (blast intro: step.go)
next
  case Nil
  show ?thesis
  proof (cases "spawned s = {#} \<and> running s = {#} \<and> finishing s = {#}")
    case True
    with assms(1) have "wg s = 0" by (simp add: round_inv_def)
    with Nil assms(2) show ?thesis by (blast intro: step.wg_Wait)
  next
    case False
    then consider ob where "ob \<in># spawned s" | ob where "ob \<in># running s"
      | ob where "ob \<in># finishing s"
      by (meson multiset_nonemptyE)
    then show ?thesis
      by cases (blast intro: step.Run_call step.Run_return step.wg_Done)+
  qed
qed

text \<open>
  C3. In every state a round can reach from its start, the observers have been invoked
  at most as often as there are observers in the snapshot, each time with the container
  and the channel of the round. When the handler has returned, the invocations are
  exactly the observers of the snapshot, one for each (so \<open>N\<close> for \<open>N\<close> observers), every
  one of them has returned, and the counter of the wait group is zero. Until then the
  round is never stuck: some step is possible.
\<close>

theorem round_returns_after_all_observers:
  assumes "rtranclp (step c errs) (startRound c) s"
  shows "length (calls s) \<le> length (observers c)
    \<and> set (map snd (calls s)) \<subseteq> {(c, errs)}
    \<and> (returned s \<longrightarrow>
          mset (map fst (calls s)) = mset (observers c)
        \<and> length (calls s) = length (observers c)
        \<and> finished s = length (observers c)
        \<and> wg s = 0)
    \<and> (\<not> returned s \<longrightarrow> (\<exists>s'. step c errs s s'))"
proof -
  from assms have inv: "round_inv c errs s"
    by (rule round_inv_reachable)
  then have m: "mset (map fst (calls s)) + spawned s + mset (pending s) = mset (observers c)"
    by (simp add: round_inv_def)
  have "size (mset (map fst (calls s)) + spawned s + mset (pending s)) = size (mset (observers c))"
    unfolding m ..
  then have 1: "length (calls s) \<le> length (observers c)"
    by simp
  from inv have 2: "set (map snd (calls s)) \<subseteq> {(c, errs)}"
    by (simp add: round_inv_def)
  have 3: "returned s \<longrightarrow>
          mset (map fst (calls s)) = mset (observers c)
        \<and> length (calls s) = length (observers c)
        \<and> finished s = length (observers c)
        \<and> wg s = 0"
  proof
    assume "returned s"
    with inv have e: "pending s = []" "spawned s = {#}" "running s = {#}" "finishing s = {#}"
      by (simp_all add: round_inv_def)
    with m have a: "mset (map fst (calls s)) = mset (observers c)" by simp
    then have "size (mset (map fst (calls s))) = size (mset (observers c))" by simp
    then have b: "length (calls s) = length (observers c)" by simp
    from inv e b have "finished s = length (observers c)" "wg s = 0"
      by (simp_all add: round_inv_def)
    with a b show "mset (map fst (calls s)) = mset (observers c)
        \<and> length (calls s) = length (observers c)
        \<and> finished s = length (observers c)
        \<and> wg s = 0" by simp
  qed
  have 4: "\<not> returned s \<longrightarrow> (\<exists>s'. step c errs s s')"
    using round_progress [OF inv] by blast
  from 1 2 3 4 show ?thesis by blast
qed


theorem round_returns_after_all_observers_witness:
  "rtranclp (step watched 0) (startRound watched) (finalRound watched 0)
   \<and> returned (finalRound watched 0)
   \<and> observers watched = [Custom 1, Observer 2]
   \<and> length (calls (finalRound watched 0)) = 2
   \<and> finished (finalRound watched 0) = 2"
proof -
  have r: "rtranclp (step watched 0) (startRound watched) (finalRound watched 0)"
    by (rule round_can_complete)
  have o: "observers watched = [Custom 1, Observer 2]"
    by (simp add: watched_def AddObserverFunc_def AddObserver_def NewFilesContainer_eq
        initContainer_def)
  have ret: "returned (finalRound watched 0)"
    by (simp add: finalRound_def)
  from round_returns_after_all_observers [OF r] ret o r
  show ?thesis by simp
qed

end
